theory Spec2Isabelle
  imports Main "HOL-Library.Word" "HOL-Library.Monad_Syntax"
begin

section \<open>Bytes, results and the library functions the address codec calls\<close>

text \<open>
  A Go \<^verbatim>\<open>[]byte\<close> is modelled by its contents, a list of 8-bit words. A slice expression
  with an upper bound is checked against the capacity of the slice, not its length: where
  the source takes one with no check of the length before it (the iterator prefixes), the
  model also carries the bytes of the backing array between the length and the capacity.
  A Go \<^verbatim>\<open>string\<close> is a list of characters, and \<^verbatim>\<open>uuid.UUID\<close> (a 16-byte array) is a byte
  list whose length 16 is a hypothesis wherever it matters.
\<close>

type_synonym byte = "8 word"
type_synonym bytes = "byte list"
type_synonym uuid = "byte list"

text \<open>
  The errors of the package, one constructor for each kind of failure. The Go code builds
  them with \<^verbatim>\<open>errors.New\<close> and \<^verbatim>\<open>fmt.Errorf\<close>; the constructor's arguments are the values
  the message is formatted from.
\<close>

datatype error =
    Empty                             \<comment> \<open>"address is empty", "address empty"\<close>
  | UnknownType byte                  \<comment> \<open>"invalid metadata address type: %d", "invalid address type out of valid range"\<close>
  | LengthMismatch nat nat            \<comment> \<open>"incorrect address length (expected: %d, actual: %d)"\<close>
  | TooShort nat nat                  \<comment> \<open>"incorrect address length (must be at least %d, actual: %d)"\<close>
  | MalformedUUID                     \<comment> \<open>the error of \<^verbatim>\<open>uuid.FromBytes\<close>, wrapped or not\<close>
  | InvalidAddressFor string error    \<comment> \<open>"invalid %s metadata address %#v: %w"\<close>
  | WrongTypeFor string               \<comment> \<open>"invalid %s id %q: wrong type"\<close>
  | EmptyInput                        \<comment> \<open>"empty address string is not allowed"\<close>
  | DecodeError                       \<comment> \<open>an error of the bech32 library\<close>
  | PrefixMismatch string string      \<comment> \<open>"invalid bech32 prefix; expected %s, got %s"\<close>
  | WrongType                         \<comment> \<open>"this metadata address does not contain a scope uuid" and its like\<close>
  | InvalidInput                      \<comment> \<open>"missing name value for record metadata address"\<close>
  | NilEntry                          \<comment> \<open>"nil entry not allowed"\<close>
  | DuplicateAddress bytes            \<comment> \<open>"duplicate metadata address %q not allowed"\<close>
  | MissingAccount bytes              \<comment> \<open>"no account address associated with metadata address %q"\<close>

text \<open>
  A call either returns or panics. \<open>Panics\<close> stands for a Go run-time panic (an explicit
  \<^verbatim>\<open>panic\<close> or a slice bound out of range); a function that returns a value and an error
  returns a pair or a sum inside \<open>Returns\<close>.
\<close>

type_synonym 'a outcome = "'a option"

abbreviation (input) Returns :: "'a \<Rightarrow> 'a outcome" where
  "Returns \<equiv> Some"

abbreviation (input) Panics :: "'a outcome" where
  "Panics \<equiv> None"

definition slice_cap :: "'a list \<Rightarrow> 'a list \<Rightarrow> nat \<Rightarrow> nat \<Rightarrow> 'a list outcome" where
  \<comment> \<open>\<^verbatim>\<open>xs[lo:hi]\<close> for a slice with contents \<open>xs\<close> whose backing array goes on with \<open>spare\<close>:
      a run-time panic unless \<open>lo \<le> hi \<le> cap\<close>, and the bytes past the length are read
      from the backing array.\<close>
  "slice_cap xs spare lo hi =
     (if lo \<le> hi \<and> hi \<le> length xs + length spare
      then Returns (take (hi - lo) (drop lo (xs @ spare))) else Panics)"

definition slice :: "'a list \<Rightarrow> nat \<Rightarrow> nat \<Rightarrow> 'a list outcome" where
  \<comment> \<open>\<^verbatim>\<open>xs[lo:hi]\<close> where the capacity is the length. It is used where the source has checked
      \<open>hi \<le> len\<close> before, and there the result is the same for every capacity
      (\<open>slice_cap_within_length\<close>).\<close>
  "slice xs lo hi = (if lo \<le> hi \<and> hi \<le> length xs then Returns (take (hi - lo) (drop lo xs)) else Panics)"

definition slice_from :: "'a list \<Rightarrow> nat \<Rightarrow> 'a list outcome" where
  \<comment> \<open>\<^verbatim>\<open>xs[lo:]\<close>\<close>
  "slice_from xs lo = slice xs lo (length xs)"

definition copy :: "'a list \<Rightarrow> 'a list \<Rightarrow> 'a list" where
  \<comment> \<open>\<^verbatim>\<open>copy(dst, src)\<close>: the new contents of \<open>dst\<close>.\<close>
  "copy dst src = take (length dst) src @ drop (length src) dst"

subsection \<open>google/uuid\<close>

definition FromBytes :: "bytes \<Rightarrow> error + uuid" where
  \<comment> \<open>\<^verbatim>\<open>uuid.FromBytes\<close>: fails only when the slice is not 16 bytes long (as GetDetails notes).\<close>
  "FromBytes b = (if length b \<noteq> 16 then Inl MalformedUUID else Inr b)"

definition MarshalBinary :: "uuid \<Rightarrow> error + bytes" where
  \<comment> \<open>\<^verbatim>\<open>UUID.MarshalBinary\<close> returns the 16 bytes and a nil error.\<close>
  "MarshalBinary u = Inr u"

subsection \<open>The type tags\<close>

text \<open>
  Modelled from the spec: the key prefixes \<^verbatim>\<open>ScopeKeyPrefix\<close>, \<^verbatim>\<open>SessionKeyPrefix\<close>,
  \<^verbatim>\<open>RecordKeyPrefix\<close>, \<^verbatim>\<open>ScopeSpecificationKeyPrefix\<close>, \<^verbatim>\<open>ContractSpecificationKeyPrefix\<close> and
  \<^verbatim>\<open>RecordSpecificationKeyPrefix\<close> are declared in another file of the package. The spec
  fixes that each is one tag byte (byte 0 of an address) and that the six are distinct
  constants, and leaves their values open; they are a parameter here.
\<close>

record keys =
  ScopeTag :: byte
  SessionTag :: byte
  RecordTag :: byte
  ScopeSpecificationTag :: byte
  ContractSpecificationTag :: byte
  RecordSpecificationTag :: byte

definition ScopeKeyPrefix :: "keys \<Rightarrow> bytes" where
  "ScopeKeyPrefix K = [ScopeTag K]"

definition SessionKeyPrefix :: "keys \<Rightarrow> bytes" where
  "SessionKeyPrefix K = [SessionTag K]"

definition RecordKeyPrefix :: "keys \<Rightarrow> bytes" where
  "RecordKeyPrefix K = [RecordTag K]"

definition ScopeSpecificationKeyPrefix :: "keys \<Rightarrow> bytes" where
  "ScopeSpecificationKeyPrefix K = [ScopeSpecificationTag K]"

definition ContractSpecificationKeyPrefix :: "keys \<Rightarrow> bytes" where
  "ContractSpecificationKeyPrefix K = [ContractSpecificationTag K]"

definition RecordSpecificationKeyPrefix :: "keys \<Rightarrow> bytes" where
  "RecordSpecificationKeyPrefix K = [RecordSpecificationTag K]"

definition distinct_keys :: "keys \<Rightarrow> bool" where
  "distinct_keys K = distinct [ScopeTag K, SessionTag K, RecordTag K,
     ScopeSpecificationTag K, ContractSpecificationTag K, RecordSpecificationTag K]"

definition example_keys :: keys where
  "example_keys = \<lparr>ScopeTag = 0, SessionTag = 1, RecordTag = 2,
     ScopeSpecificationTag = 4, ContractSpecificationTag = 3, RecordSpecificationTag = 5\<rparr>"

subsection \<open>The human readable prefixes\<close>

definition PrefixScope :: string where
  "PrefixScope = ''scope''"

definition PrefixSession :: string where
  "PrefixSession = ''session''"

definition PrefixRecord :: string where
  "PrefixRecord = ''record''"

definition PrefixScopeSpecification :: string where
  "PrefixScopeSpecification = ''scopespec''"

definition PrefixContractSpecification :: string where
  "PrefixContractSpecification = ''contractspec''"

definition PrefixRecordSpecification :: string where
  "PrefixRecordSpecification = ''recspec''"

definition DenomPrefix :: string where
  "DenomPrefix = ''nft/''"

section \<open>VerifyMetadataAddressFormat\<close>

text \<open>
  The \<^verbatim>\<open>switch bz[0]\<close> of VerifyMetadataAddressFormat: the cases are tried in the order of
  the source, and each sets the prefix, the required length and whether a secondary UUID
  is checked. \<open>None\<close> is the default case.
\<close>

definition type_switch :: "keys \<Rightarrow> byte \<Rightarrow> (string \<times> nat \<times> bool) option" where
  "type_switch K b =
     (if b = ScopeKeyPrefix K ! 0 then Some (PrefixScope, 1 + 16, False)
      else if b = SessionKeyPrefix K ! 0 then Some (PrefixSession, 1 + 16 + 16, True)
      else if b = RecordKeyPrefix K ! 0 then Some (PrefixRecord, 1 + 16 + 16, False)
      else if b = ScopeSpecificationKeyPrefix K ! 0 then Some (PrefixScopeSpecification, 1 + 16, False)
      else if b = ContractSpecificationKeyPrefix K ! 0 then Some (PrefixContractSpecification, 1 + 16, False)
      else if b = RecordSpecificationKeyPrefix K ! 0 then Some (PrefixRecordSpecification, 1 + 16 + 16, False)
      else None)"

definition VerifyMetadataAddressFormat :: "keys \<Rightarrow> bytes \<Rightarrow> (string \<times> error option) outcome" where
  "VerifyMetadataAddressFormat K bz =
     (if length bz = 0 then Returns ('''', Some Empty)
      else case type_switch K (bz ! 0) of
        None \<Rightarrow> Returns ('''', Some (UnknownType (bz ! 0)))
      | Some (hrp, requiredLength, checkSecondaryUUID) \<Rightarrow>
          if length bz \<noteq> requiredLength
          then Returns (hrp, Some (LengthMismatch requiredLength (length bz)))
          else do {
            primary \<leftarrow> slice bz 1 17;
            case FromBytes primary of
              Inl err \<Rightarrow> Returns (hrp, Some MalformedUUID)
            | Inr _ \<Rightarrow>
                if checkSecondaryUUID
                then do {
                  secondary \<leftarrow> slice bz 17 33;
                  case FromBytes secondary of
                    Inl err \<Rightarrow> Returns (hrp, Some MalformedUUID)
                  | Inr _ \<Rightarrow> Returns (hrp, None)
                }
                else Returns (hrp, None)
          })"

definition Validate :: "keys \<Rightarrow> bytes \<Rightarrow> error option outcome" where
  \<comment> \<open>\<^verbatim>\<open>MetadataAddress.Validate\<close>: the error of VerifyMetadataAddressFormat.\<close>
  "Validate K ma = do { r \<leftarrow> VerifyMetadataAddressFormat K ma; Returns (snd r) }"

text \<open>
  The claim's words: the six known tags, and the length each requires (17 for Scope,
  ScopeSpecification and ContractSpecification, 33 for Session, Record and
  RecordSpecification).
\<close>

definition known_tag :: "keys \<Rightarrow> byte \<Rightarrow> bool" where
  "known_tag K b = (b \<in> {ScopeTag K, SessionTag K, RecordTag K,
     ScopeSpecificationTag K, ContractSpecificationTag K, RecordSpecificationTag K})"

definition required_length :: "keys \<Rightarrow> byte \<Rightarrow> nat" where
  "required_length K b =
     (if b \<in> {ScopeTag K, ScopeSpecificationTag K, ContractSpecificationTag K} then 17 else 33)"

definition tag_prefix :: "keys \<Rightarrow> byte \<Rightarrow> string" where
  \<comment> \<open>The text prefix of a tag, by the table of the spec.\<close>
  "tag_prefix K b =
     (if b = ScopeTag K then PrefixScope
      else if b = SessionTag K then PrefixSession
      else if b = RecordTag K then PrefixRecord
      else if b = ScopeSpecificationTag K then PrefixScopeSpecification
      else if b = ContractSpecificationTag K then PrefixContractSpecification
      else PrefixRecordSpecification)"

definition valid_address :: "keys \<Rightarrow> bytes \<Rightarrow> bool" where
  "valid_address K b = (0 < length b \<and> known_tag K (b ! 0) \<and> length b = required_length K (b ! 0))"

section \<open>Libraries outside the repository\<close>

text \<open>
  SHA-256, the bech32 text encoding and the Unicode tables of the package strings belong
  to libraries outside the repository. The model takes them as a parameter: \<open>Sum256\<close> is
  \<^verbatim>\<open>sha256.Sum256\<close>; \<open>ConvertAndEncode\<close> and \<open>DecodeAndConvert\<close> are the two functions of the
  cosmos-sdk bech32 package, each returning its error or its value; \<open>TrimSpaceUnicode\<close>
  and \<open>ToLowerUnicode\<close> are what \<^verbatim>\<open>strings.TrimSpace\<close> and \<^verbatim>\<open>strings.ToLower\<close> return on a string
  with a byte outside ASCII. What a theorem needs of them is stated as its hypothesis.
\<close>

record lib =
  Sum256 :: "bytes \<Rightarrow> bytes"
  ConvertAndEncode :: "string \<Rightarrow> bytes \<Rightarrow> error + string"
  DecodeAndConvert :: "string \<Rightarrow> error + (string \<times> bytes)"
  TrimSpaceUnicode :: "string \<Rightarrow> string"
  ToLowerUnicode :: "string \<Rightarrow> string"

subsection \<open>strings\<close>

text \<open>
  \<^verbatim>\<open>strings.TrimSpace\<close> and \<^verbatim>\<open>strings.ToLower\<close>. On a string of ASCII bytes only, the white
  space trimmed at both ends is tab, line feed, vertical tab, form feed, carriage return
  and space, and the letters folded are A to Z. On any other string the result is the
  library's, with its Unicode tables.
\<close>

definition isASCII :: "string \<Rightarrow> bool" where
  "isASCII s = list_all (\<lambda>c. (of_char c :: nat) < 128) s"

definition isSpace :: "char \<Rightarrow> bool" where
  "isSpace c = (of_char c \<in> {9, 10, 11, 12, 13, 32 :: nat})"

definition TrimSpace :: "lib \<Rightarrow> string \<Rightarrow> string" where
  "TrimSpace L s =
     (if isASCII s then rev (dropWhile isSpace (rev (dropWhile isSpace s)))
      else TrimSpaceUnicode L s)"

definition toLower :: "char \<Rightarrow> char" where
  "toLower c = (if 65 \<le> (of_char c :: nat) \<and> (of_char c :: nat) \<le> 90
                then char_of (of_char c + 32 :: nat) else c)"

definition ToLower :: "lib \<Rightarrow> string \<Rightarrow> string" where
  "ToLower L s = (if isASCII s then map toLower s else ToLowerUnicode L s)"

definition to_bytes :: "string \<Rightarrow> bytes" where
  \<comment> \<open>The conversion \<^verbatim>\<open>[]byte(s)\<close>.\<close>
  "to_bytes s = map (\<lambda>c. of_nat (of_char c)) s"

subsection \<open>encoding/hex and encoding/base64\<close>

definition hex_digit :: "nat \<Rightarrow> char" where
  "hex_digit n = ''0123456789abcdef'' ! n"

definition hex_EncodeToString :: "bytes \<Rightarrow> string" where
  "hex_EncodeToString bs = concat (map (\<lambda>b. [hex_digit (unat b div 16), hex_digit (unat b mod 16)]) bs)"

definition base64_char :: "nat \<Rightarrow> char" where
  "base64_char n = ''ABCDEFGHIJKLMNOPQRSTUVWXYZabcdefghijklmnopqrstuvwxyz0123456789+/'' ! n"

fun base64_EncodeToString :: "bytes \<Rightarrow> string" where
  "base64_EncodeToString [] = []"
| "base64_EncodeToString [a] =
     [base64_char (unat a div 4), base64_char ((unat a mod 4) * 16), CHR ''='', CHR ''='']"
| "base64_EncodeToString [a, b] =
     [base64_char (unat a div 4), base64_char ((unat a mod 4) * 16 + unat b div 16),
      base64_char ((unat b mod 16) * 4), CHR ''='']"
| "base64_EncodeToString (a # b # c # rest) =
     [base64_char (unat a div 4), base64_char ((unat a mod 4) * 16 + unat b div 16),
      base64_char ((unat b mod 16) * 4 + unat c div 64), base64_char (unat c mod 64)]
     @ base64_EncodeToString rest"

definition uuid_String :: "uuid \<Rightarrow> string" where
  \<comment> \<open>\<^verbatim>\<open>UUID.String\<close>: the form xxxxxxxx-xxxx-xxxx-xxxx-xxxxxxxxxxxx.\<close>
  "uuid_String u =
     hex_EncodeToString (take 4 u) @ ''-'' @ hex_EncodeToString (take 2 (drop 4 u)) @ ''-''
     @ hex_EncodeToString (take 2 (drop 6 u)) @ ''-'' @ hex_EncodeToString (take 2 (drop 8 u))
     @ ''-'' @ hex_EncodeToString (take 6 (drop 10 u))"

section \<open>Constructors of addresses\<close>

definition ScopeMetadataAddress :: "keys \<Rightarrow> uuid \<Rightarrow> bytes outcome" where
  "ScopeMetadataAddress K scopeUUID =
     (case MarshalBinary scopeUUID of
        Inl err \<Rightarrow> Panics
      | Inr bz \<Rightarrow> Returns (ScopeKeyPrefix K @ bz))"

definition SessionMetadataAddress :: "keys \<Rightarrow> uuid \<Rightarrow> uuid \<Rightarrow> bytes outcome" where
  "SessionMetadataAddress K scopeUUID sessionUUID =
     (case MarshalBinary scopeUUID of
        Inl err \<Rightarrow> Panics
      | Inr bz \<Rightarrow>
          let addr = SessionKeyPrefix K @ bz in
          (case MarshalBinary sessionUUID of
             Inl err \<Rightarrow> Panics
           | Inr bz2 \<Rightarrow> Returns (addr @ bz2)))"

definition RecordMetadataAddress :: "keys \<Rightarrow> lib \<Rightarrow> uuid \<Rightarrow> string \<Rightarrow> bytes outcome" where
  "RecordMetadataAddress K L scopeUUID name =
     (case MarshalBinary scopeUUID of
        Inl err \<Rightarrow> Panics
      | Inr bz \<Rightarrow>
          let addr = RecordKeyPrefix K @ bz;
              name2 = ToLower L (TrimSpace L name)
          in if length name2 < 1 then Panics
             else let nameBytes = Sum256 L (to_bytes name2)
                  in Returns (addr @ take 16 nameBytes))"

definition ScopeSpecMetadataAddress :: "keys \<Rightarrow> uuid \<Rightarrow> bytes outcome" where
  "ScopeSpecMetadataAddress K specUUID =
     (case MarshalBinary specUUID of
        Inl err \<Rightarrow> Panics
      | Inr bz \<Rightarrow> Returns (ScopeSpecificationKeyPrefix K @ bz))"

definition ContractSpecMetadataAddress :: "keys \<Rightarrow> uuid \<Rightarrow> bytes outcome" where
  "ContractSpecMetadataAddress K specUUID =
     (case MarshalBinary specUUID of
        Inl err \<Rightarrow> Panics
      | Inr bz \<Rightarrow> Returns (ContractSpecificationKeyPrefix K @ bz))"

definition RecordSpecMetadataAddress :: "keys \<Rightarrow> lib \<Rightarrow> uuid \<Rightarrow> string \<Rightarrow> bytes outcome" where
  "RecordSpecMetadataAddress K L contractSpecUUID name =
     (case MarshalBinary contractSpecUUID of
        Inl err \<Rightarrow> Panics
      | Inr bz \<Rightarrow>
          let addr = RecordSpecificationKeyPrefix K @ bz;
              name2 = ToLower L (TrimSpace L name)
          in if length name2 < 1 then Panics
             else let nameBytes = Sum256 L (to_bytes name2)
                  in Returns (addr @ take 16 nameBytes))"

section \<open>Text form\<close>

definition Empty_addr :: "bytes \<Rightarrow> bool" where
  \<comment> \<open>\<^verbatim>\<open>MetadataAddress.Empty\<close>: nil, or equal to the empty address.\<close>
  "Empty_addr ma = (ma = [])"

definition hex_nat :: "nat \<Rightarrow> string" where
  \<comment> \<open>A byte in the \<^verbatim>\<open>%#v\<close> form of a byte slice: hexadecimal digits with no leading zero.\<close>
  "hex_nat n = (if n < 16 then [hex_digit n] else [hex_digit (n div 16), hex_digit (n mod 16)])"

fun join :: "string \<Rightarrow> string list \<Rightarrow> string" where
  "join sep [] = []"
| "join sep [x] = x"
| "join sep (x # y # ys) = x @ sep @ join sep (y # ys)"

definition GoString :: "bytes \<Rightarrow> string" where
  \<comment> \<open>\<^verbatim>\<open>fmt.Sprintf("%#v", ma)\<close> through MetadataAddress.Format, for a non-empty address.\<close>
  "GoString ma = ''MetadataAddress{'' @ join '', '' (map (\<lambda>b. ''0x'' @ hex_nat (unat b)) ma) @ ''}''"

definition String :: "keys \<Rightarrow> lib \<Rightarrow> bytes \<Rightarrow> string outcome" where
  "String K L ma =
     (if Empty_addr ma then Returns []
      else do {
        (hrp, err) \<leftarrow> VerifyMetadataAddressFormat K ma;
        case err of
          Some e \<Rightarrow> Returns (GoString ma)
        | None \<Rightarrow>
            (case ConvertAndEncode L hrp ma of
               Inl e \<Rightarrow> Panics
             | Inr bech32Addr \<Rightarrow> Returns bech32Addr)
      })"

definition ParseMetadataAddressFromBech32 :: "keys \<Rightarrow> lib \<Rightarrow> string \<Rightarrow> (error + bytes \<times> string) outcome" where
  "ParseMetadataAddressFromBech32 K L address =
     (if length (TrimSpace L address) = 0 then Returns (Inl EmptyInput)
      else case DecodeAndConvert L address of
        Inl err \<Rightarrow> Returns (Inl err)
      | Inr (hrp, bz) \<Rightarrow> do {
          (expectedHrp, err) \<leftarrow> VerifyMetadataAddressFormat K bz;
          case err of
            Some e \<Rightarrow> Returns (Inl e)
          | None \<Rightarrow>
              if expectedHrp \<noteq> hrp then Returns (Inl (PrefixMismatch expectedHrp hrp))
              else Returns (Inr (bz, hrp))
        })"

definition MetadataAddressFromBech32 :: "keys \<Rightarrow> lib \<Rightarrow> string \<Rightarrow> (error + bytes) outcome" where
  "MetadataAddressFromBech32 K L address =
     do {
       r \<leftarrow> ParseMetadataAddressFromBech32 K L address;
       Returns (case r of Inl err \<Rightarrow> Inl err | Inr (bz, hrp) \<Rightarrow> Inr bz)
     }"

section \<open>Components of an address\<close>

definition isTypeOneOf :: "bytes \<Rightarrow> bytes list \<Rightarrow> bool" where
  "isTypeOneOf ma options =
     (if length ma = 0 then False
      else list_ex (\<lambda>opt. length opt > 0 \<and> ma ! 0 = opt ! 0) options)"

definition PrimaryUUID :: "keys \<Rightarrow> bytes \<Rightarrow> (error + uuid) outcome" where
  "PrimaryUUID K ma =
     (if length ma < 1 then Returns (Inl Empty)
      else if \<not> isTypeOneOf ma [ScopeKeyPrefix K, SessionKeyPrefix K, RecordKeyPrefix K,
                ScopeSpecificationKeyPrefix K, ContractSpecificationKeyPrefix K,
                RecordSpecificationKeyPrefix K]
      then Returns (Inl (UnknownType (ma ! 0)))
      else if length ma < 17 then Returns (Inl (TooShort 17 (length ma)))
      else do { b \<leftarrow> slice ma 1 17; Returns (FromBytes b) })"

definition SecondaryUUID :: "keys \<Rightarrow> bytes \<Rightarrow> (error + uuid) outcome" where
  "SecondaryUUID K ma =
     (if length ma < 1 then Returns (Inl Empty)
      else if \<not> isTypeOneOf ma [SessionKeyPrefix K]
      then Returns (Inl (UnknownType (ma ! 0)))
      else if length ma < 33 then Returns (Inl (TooShort 33 (length ma)))
      else do { b \<leftarrow> slice ma 17 33; Returns (FromBytes b) })"

definition NameHash :: "keys \<Rightarrow> bytes \<Rightarrow> (error + bytes) outcome" where
  "NameHash K ma =
     (let namehash = replicate 16 0 in
      if length ma < 1 then Returns (Inl Empty)
      else if \<not> isTypeOneOf ma [RecordKeyPrefix K, RecordSpecificationKeyPrefix K]
      then Returns (Inl (UnknownType (ma ! 0)))
      else if length ma < 33 then Returns (Inl (TooShort 33 (length ma)))
      else do { src \<leftarrow> slice_from ma 17; Returns (Inr (copy namehash src)) })"

definition ScopeUUID :: "keys \<Rightarrow> bytes \<Rightarrow> (error + uuid) outcome" where
  "ScopeUUID K ma =
     (if \<not> isTypeOneOf ma [ScopeKeyPrefix K, SessionKeyPrefix K, RecordKeyPrefix K]
      then Returns (Inl WrongType)
      else PrimaryUUID K ma)"

definition ContractSpecUUID :: "keys \<Rightarrow> bytes \<Rightarrow> (error + uuid) outcome" where
  "ContractSpecUUID K ma =
     (if \<not> isTypeOneOf ma [ContractSpecificationKeyPrefix K, RecordSpecificationKeyPrefix K]
      then Returns (Inl WrongType)
      else PrimaryUUID K ma)"

definition Prefix :: "keys \<Rightarrow> bytes \<Rightarrow> (string \<times> error option) outcome" where
  "Prefix K ma =
     do {
       (prefix, err) \<leftarrow> VerifyMetadataAddressFormat K ma;
       if length prefix = 0 then Returns (prefix, err) else Returns (prefix, None)
     }"

section \<open>Derived addresses\<close>

definition AsScopeAddress :: "keys \<Rightarrow> bytes \<Rightarrow> (error + bytes) outcome" where
  "AsScopeAddress K ma =
     do {
       r \<leftarrow> ScopeUUID K ma;
       case r of
         Inl err \<Rightarrow> Returns (Inl err)
       | Inr scopeUUID \<Rightarrow> do { a \<leftarrow> ScopeMetadataAddress K scopeUUID; Returns (Inr a) }
     }"

definition AsSessionAddress :: "keys \<Rightarrow> bytes \<Rightarrow> uuid \<Rightarrow> (error + bytes) outcome" where
  "AsSessionAddress K ma sessionUUID =
     do {
       r \<leftarrow> ScopeUUID K ma;
       case r of
         Inl err \<Rightarrow> Returns (Inl err)
       | Inr scopeUUID \<Rightarrow>
           do { a \<leftarrow> SessionMetadataAddress K scopeUUID sessionUUID; Returns (Inr a) }
     }"

definition AsRecordAddress :: "keys \<Rightarrow> lib \<Rightarrow> bytes \<Rightarrow> string \<Rightarrow> (error + bytes) outcome" where
  "AsRecordAddress K L ma name =
     do {
       r \<leftarrow> ScopeUUID K ma;
       case r of
         Inl err \<Rightarrow> Returns (Inl err)
       | Inr scopeUUID \<Rightarrow>
           if length name = 0 then Returns (Inl InvalidInput)
           else do { a \<leftarrow> RecordMetadataAddress K L scopeUUID name; Returns (Inr a) }
     }"

definition AsRecordSpecAddress :: "keys \<Rightarrow> lib \<Rightarrow> bytes \<Rightarrow> string \<Rightarrow> (error + bytes) outcome" where
  "AsRecordSpecAddress K L ma name =
     do {
       r \<leftarrow> ContractSpecUUID K ma;
       case r of
         Inl err \<Rightarrow> Returns (Inl err)
       | Inr contractSpecUUID \<Rightarrow>
           do { a \<leftarrow> RecordSpecMetadataAddress K L contractSpecUUID name; Returns (Inr a) }
     }"

definition AsContractSpecAddress :: "keys \<Rightarrow> bytes \<Rightarrow> (error + bytes) outcome" where
  "AsContractSpecAddress K ma =
     do {
       r \<leftarrow> ContractSpecUUID K ma;
       case r of
         Inl err \<Rightarrow> Returns (Inl err)
       | Inr contractSpecUUID \<Rightarrow>
           do { a \<leftarrow> ContractSpecMetadataAddress K contractSpecUUID; Returns (Inr a) }
     }"

section \<open>Iterator prefixes\<close>

text \<open>
  The three functions slice \<^verbatim>\<open>ma[1:17]\<close> after a look at the tag byte only. The argument
  \<open>spare\<close> is the part of the backing array of \<open>ma\<close> between its length and its capacity:
  empty for an address made by a literal or a constructor, the rest of the longer
  address for a prefix such as \<^verbatim>\<open>full[:2]\<close>.
\<close>

definition ScopeSessionIteratorPrefix :: "keys \<Rightarrow> bytes \<Rightarrow> bytes \<Rightarrow> (error + bytes) outcome" where
  "ScopeSessionIteratorPrefix K ma spare =
     (if length ma < 1 then Returns (Inr (SessionKeyPrefix K))
      else if \<not> isTypeOneOf ma [ScopeKeyPrefix K, SessionKeyPrefix K, RecordKeyPrefix K]
      then Returns (Inl WrongType)
      else do { u \<leftarrow> slice_cap ma spare 1 17; Returns (Inr (SessionKeyPrefix K @ u)) })"

definition ScopeRecordIteratorPrefix :: "keys \<Rightarrow> bytes \<Rightarrow> bytes \<Rightarrow> (error + bytes) outcome" where
  "ScopeRecordIteratorPrefix K ma spare =
     (if length ma < 1 then Returns (Inr (RecordKeyPrefix K))
      else if \<not> isTypeOneOf ma [ScopeKeyPrefix K, SessionKeyPrefix K, RecordKeyPrefix K]
      then Returns (Inl WrongType)
      else do { u \<leftarrow> slice_cap ma spare 1 17; Returns (Inr (RecordKeyPrefix K @ u)) })"

definition ContractSpecRecordSpecIteratorPrefix :: "keys \<Rightarrow> bytes \<Rightarrow> bytes \<Rightarrow> (error + bytes) outcome" where
  "ContractSpecRecordSpecIteratorPrefix K ma spare =
     (if length ma < 1 then Returns (Inr (RecordSpecificationKeyPrefix K))
      else if \<not> isTypeOneOf ma [ContractSpecificationKeyPrefix K, RecordSpecificationKeyPrefix K]
      then Returns (Inl WrongType)
      else do { u \<leftarrow> slice_cap ma spare 1 17; Returns (Inr (RecordSpecificationKeyPrefix K @ u)) })"

section \<open>Type checks\<close>

definition IsScopeAddress :: "keys \<Rightarrow> bytes \<Rightarrow> bool outcome" where
  "IsScopeAddress K ma =
     do {
       (hrp, err) \<leftarrow> VerifyMetadataAddressFormat K ma;
       Returns (err = None \<and> hrp = PrefixScope)
     }"

definition IsContractSpecificationAddress :: "keys \<Rightarrow> bytes \<Rightarrow> bool outcome" where
  "IsContractSpecificationAddress K ma =
     do {
       (hrp, err) \<leftarrow> VerifyMetadataAddressFormat K ma;
       Returns (err = None \<and> hrp = PrefixContractSpecification)
     }"

definition VerifyMetadataAddressHasType :: "keys \<Rightarrow> bytes \<Rightarrow> string \<Rightarrow> error option outcome" where
  "VerifyMetadataAddressHasType K ma expHRP =
     do {
       (hrp, err) \<leftarrow> VerifyMetadataAddressFormat K ma;
       case err of
         Some e \<Rightarrow> Returns (Some (InvalidAddressFor expHRP e))
       | None \<Rightarrow>
           if hrp \<noteq> expHRP then Returns (Some (WrongTypeFor expHRP))
           else Returns None
     }"

definition ValidateIsScopeAddress :: "keys \<Rightarrow> bytes \<Rightarrow> error option outcome" where
  "ValidateIsScopeAddress K ma = VerifyMetadataAddressHasType K ma PrefixScope"

section \<open>GetDetails\<close>

text \<open>
  The struct MetadataAddressDetails. Its string fields \<^verbatim>\<open>Prefix\<close>, \<^verbatim>\<open>PrimaryUUID\<close> and
  \<^verbatim>\<open>SecondaryUUID\<close> share their names with methods of MetadataAddress and carry the suffix
  \<open>String\<close> here. A nil slice and an empty string are both the empty list.
\<close>

record MetadataAddressDetails =
  Address :: bytes
  AddressPrefix :: bytes
  AddressPrimaryUUID :: bytes
  AddressSecondaryUUID :: bytes
  AddressNameHash :: bytes
  AddressExcess :: bytes
  PrefixString :: string
  PrimaryUUIDString :: string
  SecondaryUUIDString :: string
  NameHashHex :: string
  NameHashBase64 :: string
  ExcessHex :: string
  ExcessBase64 :: string
  ParentAddress :: bytes

definition zero_details :: "bytes \<Rightarrow> MetadataAddressDetails" where
  \<comment> \<open>\<^verbatim>\<open>MetadataAddressDetails{Address: addr}\<close>: every other field has its zero value.\<close>
  "zero_details addr =
     \<lparr>Address = addr, AddressPrefix = [], AddressPrimaryUUID = [], AddressSecondaryUUID = [],
      AddressNameHash = [], AddressExcess = [], PrefixString = [], PrimaryUUIDString = [],
      SecondaryUUIDString = [], NameHashHex = [], NameHashBase64 = [], ExcessHex = [],
      ExcessBase64 = [], ParentAddress = []\<rparr>"

definition is_nil :: "error + 'a \<Rightarrow> bool" where
  \<comment> \<open>\<^verbatim>\<open>err == nil\<close> for the error of a call that returned.\<close>
  "is_nil r = (case r of Inl err \<Rightarrow> False | Inr v \<Rightarrow> True)"

definition GetDetails :: "keys \<Rightarrow> bytes \<Rightarrow> MetadataAddressDetails outcome" where
  "GetDetails K ma =
     do {
       let addr = copy (replicate (length ma) 0) ma;
       let retval = zero_details addr;
       retval \<leftarrow>
         (if length addr \<ge> 1
          then do {
            addressPrefix \<leftarrow> slice addr 0 1;
            (prefix, err) \<leftarrow> Prefix K addr;
            let prefix = (case err of Some e \<Rightarrow> hex_EncodeToString addressPrefix | None \<Rightarrow> prefix);
            Returns (retval\<lparr>AddressPrefix := addressPrefix, PrefixString := prefix\<rparr>)
          }
          else Returns retval);
       retval \<leftarrow>
         (if length addr \<ge> 17
          then do {
            primary \<leftarrow> slice addr 1 17;
            let uid = (case FromBytes primary of Inl e \<Rightarrow> replicate 16 0 | Inr u \<Rightarrow> u);
            Returns (retval\<lparr>AddressPrimaryUUID := primary, PrimaryUUIDString := uuid_String uid\<rparr>)
          }
          else Returns retval);
       secondary \<leftarrow> SecondaryUUID K addr;
       let retval =
         (case secondary of
            Inr secondaryUUID \<Rightarrow>
              retval\<lparr>AddressSecondaryUUID := secondaryUUID,
                     SecondaryUUIDString := uuid_String secondaryUUID\<rparr>
          | Inl e \<Rightarrow> retval);
       nameHash \<leftarrow> NameHash K addr;
       let retval =
         (case nameHash of
            Inr h \<Rightarrow>
              retval\<lparr>AddressNameHash := h, NameHashHex := hex_EncodeToString h,
                     NameHashBase64 := base64_EncodeToString h\<rparr>
          | Inl e \<Rightarrow> retval);
       let expectedLength = (if is_nil secondary \<or> is_nil nameHash then 17 + 16 else 17);
       retval \<leftarrow>
         (if length addr > expectedLength
          then do {
            excess \<leftarrow> slice_from addr expectedLength;
            Returns (retval\<lparr>AddressExcess := excess, ExcessHex := hex_EncodeToString excess,
                            ExcessBase64 := base64_EncodeToString excess\<rparr>)
          }
          else Returns retval);
       isScope \<leftarrow> IsScopeAddress K addr;
       retval \<leftarrow>
         (if \<not> isScope
          then do {
            r \<leftarrow> AsScopeAddress K addr;
            Returns (case r of Inr pAddr \<Rightarrow> retval\<lparr>ParentAddress := pAddr\<rparr> | Inl e \<Rightarrow> retval)
          }
          else Returns retval);
       isContractSpec \<leftarrow> IsContractSpecificationAddress K addr;
       retval \<leftarrow>
         (if \<not> isContractSpec
          then do {
            r \<leftarrow> AsContractSpecAddress K addr;
            Returns (case r of Inr pAddr \<Rightarrow> retval\<lparr>ParentAddress := pAddr\<rparr> | Inl e \<Rightarrow> retval)
          }
          else Returns retval);
       Returns retval
     }"

section \<open>Links between accounts and addresses\<close>

text \<open>
  An AccMDLinks is a slice of pointers: a nil entry is \<open>None\<close>. The account address is kept
  as its bytes.
\<close>

record AccMDLink =
  AccAddr :: bytes
  MDAddr :: bytes

type_synonym AccMDLinks = "AccMDLink option list"

text \<open>
  The loop of ValidateForScopes, from a given entry on. \<open>seenMDAddrs\<close> is the Go map from the
  address (as a string key) to an \<^verbatim>\<open>int8\<close>; a key that was never stored reads as 0.
\<close>

fun ValidateForScopes_loop :: "keys \<Rightarrow> (bytes \<Rightarrow> int) \<Rightarrow> AccMDLinks \<Rightarrow> error option outcome" where
  "ValidateForScopes_loop K seenMDAddrs [] = Returns None"
| "ValidateForScopes_loop K seenMDAddrs (None # rest) = Returns (Some NilEntry)"
| "ValidateForScopes_loop K seenMDAddrs (Some link # rest) =
     (let key = MDAddr link;
          after = (\<lambda>seen. if length (AccAddr link) = 0
                           then Returns (Some (MissingAccount (MDAddr link)))
                           else ValidateForScopes_loop K seen rest)
      in if seenMDAddrs key = 0
         then do {
           err \<leftarrow> ValidateIsScopeAddress K (MDAddr link);
           case err of
             Some e \<Rightarrow> Returns (Some e)
           | None \<Rightarrow> after (seenMDAddrs(key := 1))
         }
         else if seenMDAddrs key = 1
         then Returns (Some (DuplicateAddress (MDAddr link)))
         else after seenMDAddrs)"

definition ValidateForScopes :: "keys \<Rightarrow> AccMDLinks \<Rightarrow> error option outcome" where
  "ValidateForScopes K a =
     (if length a = 0 then Returns None
      else ValidateForScopes_loop K (\<lambda>key. 0) a)"

section \<open>The specification's vocabulary\<close>

text \<open>
  The definitions of this section follow the words of the specification; the theorems
  compare them with the functions above.
\<close>

subsection \<open>Encode\<close>

text \<open>
  The specification's \<^verbatim>\<open>Encode(type, identity...)\<close>: a type with the identity its row of the
  layout table asks for. Encode is the constructor of that type. An identity is valid when
  each UUID has 16 bytes and a required name is not empty once normalised.
\<close>

datatype identity =
    Scope uuid
  | Session uuid uuid
  | Record uuid string
  | ScopeSpecification uuid
  | ContractSpecification uuid
  | RecordSpecification uuid string

fun Encode :: "keys \<Rightarrow> lib \<Rightarrow> identity \<Rightarrow> bytes outcome" where
  "Encode K L (Scope u) = ScopeMetadataAddress K u"
| "Encode K L (Session u s) = SessionMetadataAddress K u s"
| "Encode K L (Record u name) = RecordMetadataAddress K L u name"
| "Encode K L (ScopeSpecification u) = ScopeSpecMetadataAddress K u"
| "Encode K L (ContractSpecification u) = ContractSpecMetadataAddress K u"
| "Encode K L (RecordSpecification u name) = RecordSpecMetadataAddress K L u name"

fun valid_identity :: "lib \<Rightarrow> identity \<Rightarrow> bool" where
  "valid_identity L (Scope u) = (length u = 16)"
| "valid_identity L (Session u s) = (length u = 16 \<and> length s = 16)"
| "valid_identity L (Record u name) = (length u = 16 \<and> ToLower L (TrimSpace L name) \<noteq> [])"
| "valid_identity L (ScopeSpecification u) = (length u = 16)"
| "valid_identity L (ContractSpecification u) = (length u = 16)"
| "valid_identity L (RecordSpecification u name) = (length u = 16 \<and> ToLower L (TrimSpace L name) \<noteq> [])"

fun expected_prefix :: "identity \<Rightarrow> string" where
  "expected_prefix (Scope u) = PrefixScope"
| "expected_prefix (Session u s) = PrefixSession"
| "expected_prefix (Record u name) = PrefixRecord"
| "expected_prefix (ScopeSpecification u) = PrefixScopeSpecification"
| "expected_prefix (ContractSpecification u) = PrefixContractSpecification"
| "expected_prefix (RecordSpecification u name) = PrefixRecordSpecification"

text \<open>
  What the round trip needs of the libraries: \<^verbatim>\<open>sha256.Sum256\<close> returns an array of 32
  bytes, and the bech32 package decodes the text it made of a prefix and an address back
  to that prefix and that address, the text not being blank.
\<close>

definition hash_ok :: "lib \<Rightarrow> bool" where
  "hash_ok L = (\<forall>m. length (Sum256 L m) = 32)"

definition codec_roundtrip :: "lib \<Rightarrow> string \<Rightarrow> bytes \<Rightarrow> bool" where
  "codec_roundtrip L hrp bz =
     (case ConvertAndEncode L hrp bz of
        Inl err \<Rightarrow> False
      | Inr str \<Rightarrow> TrimSpace L str \<noteq> [] \<and> DecodeAndConvert L str = Inr (hrp, bz))"

subsection \<open>Validate and the check of a scope address\<close>

definition spec_Validate :: "keys \<Rightarrow> bytes \<Rightarrow> error option" where
  \<comment> \<open>Empty if zero-length, UnknownType if byte 0 is not one of the six tags,
      LengthMismatch if the length is not the one the tag requires.\<close>
  "spec_Validate K b =
     (if length b = 0 then Some Empty
      else if \<not> known_tag K (b ! 0) then Some (UnknownType (b ! 0))
      else if length b \<noteq> required_length K (b ! 0)
      then Some (LengthMismatch (required_length K (b ! 0)) (length b))
      else None)"

definition NotAScopeAddress :: "keys \<Rightarrow> bytes \<Rightarrow> error option" where
  \<comment> \<open>The failure of the type check on an address that is not a valid Scope address:
      the failure of Validate, or the wrong type of a valid address.\<close>
  "NotAScopeAddress K b =
     (case spec_Validate K b of
        Some e \<Rightarrow> Some (InvalidAddressFor PrefixScope e)
      | None \<Rightarrow> if b ! 0 \<noteq> ScopeTag K then Some (WrongTypeFor PrefixScope) else None)"

subsection \<open>ValidateForScopes\<close>

text \<open>
  The entries in order, with the addresses seen so far: NilEntry if the entry is absent,
  DuplicateAddress if its address was already seen, NotAScopeAddress if the address, seen
  for the first time, is not a valid Scope address, MissingAccount if the account is
  empty; the first failure is the result.
\<close>

fun spec_ValidateForScopes :: "keys \<Rightarrow> bytes list \<Rightarrow> AccMDLinks \<Rightarrow> error option" where
  "spec_ValidateForScopes K seen [] = None"
| "spec_ValidateForScopes K seen (None # rest) = Some NilEntry"
| "spec_ValidateForScopes K seen (Some link # rest) =
     (if MDAddr link \<in> set seen then Some (DuplicateAddress (MDAddr link))
      else if NotAScopeAddress K (MDAddr link) \<noteq> None then NotAScopeAddress K (MDAddr link)
      else if AccAddr link = [] then Some (MissingAccount (MDAddr link))
      else spec_ValidateForScopes K (MDAddr link # seen) rest)"

subsection \<open>GetDetails\<close>

definition returns_with :: "'a outcome \<Rightarrow> ('a \<Rightarrow> bool) \<Rightarrow> bool" where
  \<comment> \<open>The call returns, and its result satisfies \<open>P\<close>.\<close>
  "returns_with m P = (case m of None \<Rightarrow> False | Some x \<Rightarrow> P x)"

definition prefix_text :: "keys \<Rightarrow> bytes \<Rightarrow> string" where
  \<comment> \<open>The prefix string of the details: the text prefix of the first case of the switch
      that the tag byte matches, or the tag byte in hexadecimal when no case matches.\<close>
  "prefix_text K ma =
     (if ma = [] then []
      else case type_switch K (ma ! 0) of
        None \<Rightarrow> hex_EncodeToString [ma ! 0]
      | Some (hrp, n, s) \<Rightarrow> hrp)"

definition expected_length :: "keys \<Rightarrow> bytes \<Rightarrow> nat" where
  \<comment> \<open>The length after which bytes are excess: 33 when a secondary UUID or a name hash
      was extracted, 17 otherwise.\<close>
  "expected_length K ma =
     (if 33 \<le> length ma \<and> ma ! 0 \<in> {SessionTag K, RecordTag K, RecordSpecificationTag K}
      then 33 else 17)"

section \<open>An instance of the libraries\<close>

text \<open>
  The examples need functions to run. The bech32 functions below follow BIP-173
  (regrouping of 8-bit bytes into 5-bit groups, the checksum, the character set and the
  checks of the decoder) in the way the cosmos-sdk package combines them. The hash of the
  examples is a stand-in for SHA-256 (32 bytes, each the length of the message) and so
  are the two Unicode functions (the identity): the examples are ASCII.
\<close>

unbundle bit_operations_syntax

definition charset :: string where
  "charset = ''qpzry9x8gf2tvdw0s3jn54khce6mua7l''"

definition gen :: "32 word list" where
  "gen = [0x3b6a57b2, 0x26508e6d, 0x1ea119fa, 0x3d4233dd, 0x2a1462b3]"

definition polymod_step :: "32 word \<Rightarrow> byte \<Rightarrow> 32 word" where
  "polymod_step chk v =
     (let top = drop_bit 25 chk;
          chk1 = push_bit 5 (chk AND 0x1ffffff) XOR ucast v
      in fold (\<lambda>i c. if bit top i then c XOR gen ! i else c) [0, 1, 2, 3, 4] chk1)"

definition bech32Polymod :: "bytes \<Rightarrow> 32 word" where
  "bech32Polymod values = fold (\<lambda>v chk. polymod_step chk v) values 1"

definition hrpExpand :: "string \<Rightarrow> bytes" where
  "hrpExpand hrp = map (\<lambda>c. drop_bit 5 c) (to_bytes hrp) @ [0] @ map (\<lambda>c. c AND 31) (to_bytes hrp)"

definition createChecksum :: "string \<Rightarrow> bytes \<Rightarrow> bytes" where
  "createChecksum hrp data =
     (let polymod = bech32Polymod (hrpExpand hrp @ data @ [0, 0, 0, 0, 0, 0]) XOR 1
      in map (\<lambda>i. ucast (drop_bit (5 * (5 - i)) polymod AND 31)) [0, 1, 2, 3, 4, 5])"

definition verifyChecksum :: "string \<Rightarrow> bytes \<Rightarrow> bool" where
  "verifyChecksum hrp data = (bech32Polymod (hrpExpand hrp @ data) = 1)"

definition bits_of :: "nat \<Rightarrow> byte \<Rightarrow> bool list" where
  \<comment> \<open>The low \<open>n\<close> bits of a byte, the most significant first.\<close>
  "bits_of n b = rev (map (bit b) [0..<n])"

definition of_bits :: "bool list \<Rightarrow> byte" where
  \<comment> \<open>The byte of a group of bits, the most significant first.\<close>
  "of_bits bs = horner_sum of_bool 2 (rev bs)"

fun groups :: "nat \<Rightarrow> nat \<Rightarrow> bool list \<Rightarrow> bool list list" where
  \<comment> \<open>The first \<open>k\<close> groups of \<open>n\<close> bits.\<close>
  "groups n 0 bs = []"
| "groups n (Suc k) bs = take n bs # groups n k (drop n bs)"

definition ConvertBits :: "bytes \<Rightarrow> nat \<Rightarrow> nat \<Rightarrow> bool \<Rightarrow> error + bytes" where
  "ConvertBits data fromBits toBits pad =
     (let bs = concat (map (bits_of fromBits) data);
          k = length bs div toBits;
          rest = drop (k * toBits) bs;
          full = map of_bits (groups toBits k bs)
      in if pad then Inr (if rest = [] then full
                          else full @ [of_bits (rest @ replicate (toBits - length rest) False)])
         else if length rest \<ge> fromBits \<or> list_ex (\<lambda>b. b) rest then Inl DecodeError
         else Inr full)"

definition bech32_Encode :: "string \<Rightarrow> bytes \<Rightarrow> error + string" where
  "bech32_Encode hrp data =
     (if list_ex (\<lambda>b. unat b \<ge> 32) data then Inl DecodeError
      else Inr (hrp @ ''1'' @ map (\<lambda>b. charset ! unat b) (data @ createChecksum hrp data)))"

fun index_of :: "char \<Rightarrow> string \<Rightarrow> nat option" where
  "index_of c [] = None"
| "index_of c (x # xs) = (if x = c then Some 0 else map_option Suc (index_of c xs))"

definition last_index :: "char \<Rightarrow> string \<Rightarrow> nat option" where
  "last_index c s = map_option (\<lambda>i. length s - 1 - i) (index_of c (rev s))"

fun toBytes :: "string \<Rightarrow> bytes option" where
  "toBytes [] = Some []"
| "toBytes (c # cs) =
     (case index_of c charset of
        None \<Rightarrow> None
      | Some i \<Rightarrow> map_option (\<lambda>r. of_nat i # r) (toBytes cs))"

definition bech32_Decode :: "string \<Rightarrow> error + (string \<times> bytes)" where
  \<comment> \<open>The decoder, with the limit of 1023 characters that \<^verbatim>\<open>DecodeAndConvert\<close> gives it.\<close>
  "bech32_Decode bech =
     (if length bech < 8 \<or> length bech > 1023 then Inl DecodeError
      else if list_ex (\<lambda>c. (of_char c :: nat) < 33 \<or> (of_char c :: nat) > 126) bech
      then Inl DecodeError
      else if bech \<noteq> map toLower bech
              \<and> list_ex (\<lambda>c. 97 \<le> (of_char c :: nat) \<and> (of_char c :: nat) \<le> 122) bech
      then Inl DecodeError
      else let bech = map toLower bech in
        case last_index CHR ''1'' bech of
          None \<Rightarrow> Inl DecodeError
        | Some one \<Rightarrow>
            if one < 1 \<or> one + 7 > length bech then Inl DecodeError
            else let hrp = take one bech; data = drop (one + 1) bech in
              (case toBytes data of
                 None \<Rightarrow> Inl DecodeError
               | Some decoded \<Rightarrow>
                   if \<not> verifyChecksum hrp decoded then Inl DecodeError
                   else Inr (hrp, take (length decoded - 6) decoded)))"

definition bech32_ConvertAndEncode :: "string \<Rightarrow> bytes \<Rightarrow> error + string" where
  "bech32_ConvertAndEncode hrp data =
     (case ConvertBits data 8 5 True of
        Inl err \<Rightarrow> Inl err
      | Inr converted \<Rightarrow> bech32_Encode hrp converted)"

definition bech32_DecodeAndConvert :: "string \<Rightarrow> error + (string \<times> bytes)" where
  "bech32_DecodeAndConvert bech =
     (case bech32_Decode bech of
        Inl err \<Rightarrow> Inl err
      | Inr (hrp, data) \<Rightarrow>
          (case ConvertBits data 5 8 False of
             Inl err \<Rightarrow> Inl err
           | Inr converted \<Rightarrow> Inr (hrp, converted)))"

definition gen_part :: "32 word \<Rightarrow> 32 word" where
  \<comment> \<open>What a step of the checksum adds for the top five bits \<open>t\<close> of the state.\<close>
  "gen_part t = fold (\<lambda>i c. if bit t i then c XOR gen ! i else c) [0, 1, 2, 3, 4] 0"

definition hrp_ok :: "string \<Rightarrow> bool" where
  \<comment> \<open>A prefix the decoder accepts and returns as it is: not empty, of visible ASCII
      characters, none of them an upper case letter.\<close>
  "hrp_ok hrp = (hrp \<noteq> [] \<and> list_all (\<lambda>c. 33 \<le> (of_char c :: nat) \<and> (of_char c :: nat) \<le> 126 \<and> toLower c = c) hrp)"

definition example_lib :: lib where
  "example_lib = \<lparr>Sum256 = (\<lambda>m. replicate 32 (of_nat (length m))),
     ConvertAndEncode = bech32_ConvertAndEncode, DecodeAndConvert = bech32_DecodeAndConvert,
     TrimSpaceUnicode = (\<lambda>s. s), ToLowerUnicode = (\<lambda>s. s)\<rparr>"

definition example_uuid :: uuid where
  \<comment> \<open>8d80b25a-c089-4446-956e-5d08cfe3e1a5\<close>
  "example_uuid = [0x8d, 0x80, 0xb2, 0x5a, 0xc0, 0x89, 0x44, 0x46,
                   0x95, 0x6e, 0x5d, 0x08, 0xcf, 0xe3, 0xe1, 0xa5]"

section \<open>Facts about VerifyMetadataAddressFormat\<close>

lemmas key_prefix_defs =
  ScopeKeyPrefix_def SessionKeyPrefix_def RecordKeyPrefix_def
  ScopeSpecificationKeyPrefix_def ContractSpecificationKeyPrefix_def
  RecordSpecificationKeyPrefix_def

lemma slice_cap_within_length:
  "hi \<le> length xs \<Longrightarrow> slice_cap xs spare lo hi = slice xs lo hi"
  by (simp add: slice_cap_def slice_def)

lemma slice_Returns: "lo \<le> hi \<Longrightarrow> hi \<le> length xs \<Longrightarrow> slice xs lo hi = Returns (take (hi - lo) (drop lo xs))"
  by (simp add: slice_def)

lemma slice_Panics: "length xs < hi \<Longrightarrow> slice xs lo hi = Panics"
  by (simp add: slice_def)

lemma FromBytes_16: "length b = 16 \<Longrightarrow> FromBytes b = Inr b"
  by (simp add: FromBytes_def)

lemma type_switch_length: "type_switch K b = Some (hrp, n, s) \<Longrightarrow> n = 17 \<or> n = 33"
  by (auto simp: type_switch_def split: if_splits)

lemma type_switch_secondary: "type_switch K b = Some (hrp, n, True) \<Longrightarrow> n = 33"
  by (auto simp: type_switch_def split: if_splits)

lemma type_switch_known: "(type_switch K b \<noteq> None) = known_tag K b"
  by (auto simp: type_switch_def known_tag_def key_prefix_defs)

lemma type_switch_spec:
  assumes "distinct_keys K" and "known_tag K b"
  shows "\<exists>s. type_switch K b = Some (tag_prefix K b, required_length K b, s)"
  using assms
  by (auto simp: type_switch_def known_tag_def distinct_keys_def key_prefix_defs
      required_length_def tag_prefix_def)

lemma Verify_at_required_length:
  assumes "type_switch K (bz ! 0) = Some (hrp, n, s)" and "length bz = n"
  shows "VerifyMetadataAddressFormat K bz = Returns (hrp, None)"
proof -
  from assms(1) have n: "n = 17 \<or> n = 33"
    by (rule type_switch_length)
  from assms(1) have s: "s \<Longrightarrow> n = 33"
    by (auto dest: type_switch_secondary)
  have p: "slice bz 1 17 = Returns (take 16 (drop 1 bz))"
    using n assms(2) by (auto simp: slice_def)
  have fp: "FromBytes (take 16 (drop 1 bz)) = Inr (take 16 (drop 1 bz))"
    using n assms(2) by (intro FromBytes_16) auto
  show ?thesis
  proof (cases s)
    case False
    with assms n p fp show ?thesis
      by (auto simp: VerifyMetadataAddressFormat_def)
  next
    case True
    then have "n = 33" by (rule s)
    with assms have q: "slice bz 17 33 = Returns (take 16 (drop 17 bz))"
      and fq: "FromBytes (take 16 (drop 17 bz)) = Inr (take 16 (drop 17 bz))"
      by (auto simp: slice_def FromBytes_def)
    with assms \<open>n = 33\<close> p fp True show ?thesis
      by (auto simp: VerifyMetadataAddressFormat_def)
  qed
qed

lemma Verify_cases:
  "VerifyMetadataAddressFormat K bz =
     (if length bz = 0 then Returns ('''', Some Empty)
      else case type_switch K (bz ! 0) of
        None \<Rightarrow> Returns ('''', Some (UnknownType (bz ! 0)))
      | Some (hrp, n, s) \<Rightarrow>
          if length bz \<noteq> n then Returns (hrp, Some (LengthMismatch n (length bz)))
          else Returns (hrp, None))"
proof (cases "length bz = 0")
  case True
  then show ?thesis by (simp add: VerifyMetadataAddressFormat_def)
next
  case False
  show ?thesis
  proof (cases "type_switch K (bz ! 0)")
    case None
    with False show ?thesis by (simp add: VerifyMetadataAddressFormat_def)
  next
    case (Some t)
    obtain hrp n s where t: "t = (hrp, n, s)" by (cases t)
    show ?thesis
    proof (cases "length bz = n")
      case True
      with Some t have "VerifyMetadataAddressFormat K bz = Returns (hrp, None)"
        by (intro Verify_at_required_length) auto
      with False Some t True show ?thesis by simp
    next
      case neq: False
      with False Some t show ?thesis by (simp add: VerifyMetadataAddressFormat_def)
    qed
  qed
qed

lemma Verify_valid:
  assumes "distinct_keys K" and "valid_address K bz"
  shows "VerifyMetadataAddressFormat K bz = Returns (tag_prefix K (bz ! 0), None)"
proof -
  from assms obtain s where
    "type_switch K (bz ! 0) = Some (tag_prefix K (bz ! 0), required_length K (bz ! 0), s)"
    using type_switch_spec by (auto simp: valid_address_def)
  with assms(2) show ?thesis
    by (auto simp: Verify_cases valid_address_def required_length_def)
qed

lemma Verify_succeeds_iff:
  assumes "distinct_keys K"
  shows "(\<exists>hrp. VerifyMetadataAddressFormat K bz = Returns (hrp, None)) = valid_address K bz"
proof
  assume "valid_address K bz"
  with assms show "\<exists>hrp. VerifyMetadataAddressFormat K bz = Returns (hrp, None)"
    using Verify_valid by blast
next
  assume ok: "\<exists>hrp. VerifyMetadataAddressFormat K bz = Returns (hrp, None)"
  then have len: "length bz \<noteq> 0"
    by (auto simp: Verify_cases)
  with ok obtain hrp n s where sw: "type_switch K (bz ! 0) = Some (hrp, n, s)" and n: "length bz = n"
    by (auto simp: Verify_cases split: option.splits if_splits)
  from sw have known: "known_tag K (bz ! 0)"
    using type_switch_known [of K "bz ! 0"] by simp
  with assms sw have "n = required_length K (bz ! 0)"
    using type_switch_spec [of K "bz ! 0"] by auto
  with len n known show "valid_address K bz"
    by (simp add: valid_address_def)
qed

section \<open>Facts about the components\<close>

lemma isTypeOneOf_iff:
  "isTypeOneOf ma opts = (ma \<noteq> [] \<and> (\<exists>opt \<in> set opts. opt \<noteq> [] \<and> ma ! 0 = opt ! 0))"
  by (auto simp: isTypeOneOf_def list_ex_iff)

lemma Validate_length:
  assumes "Validate K ma = Returns None"
  shows "length ma = 17 \<or> length ma = 33"
proof -
  from assms obtain hrp where "VerifyMetadataAddressFormat K ma = Returns (hrp, None)"
    by (auto simp: Validate_def bind_eq_Some_conv)
  then show ?thesis
    by (auto simp: Verify_cases split: if_splits option.splits dest: type_switch_length)
qed

lemma PrimaryUUID_returns:
  "PrimaryUUID K ma = Returns
     (if length ma < 1 then Inl Empty
      else if \<not> known_tag K (ma ! 0) then Inl (UnknownType (ma ! 0))
      else if length ma < 17 then Inl (TooShort 17 (length ma))
      else Inr (take 16 (drop 1 ma)))"
  by (auto simp: PrimaryUUID_def isTypeOneOf_iff key_prefix_defs known_tag_def slice_def FromBytes_def)

lemma SecondaryUUID_returns:
  "SecondaryUUID K ma = Returns
     (if length ma < 1 then Inl Empty
      else if ma ! 0 \<noteq> SessionTag K then Inl (UnknownType (ma ! 0))
      else if length ma < 33 then Inl (TooShort 33 (length ma))
      else Inr (take 16 (drop 17 ma)))"
  by (auto simp: SecondaryUUID_def isTypeOneOf_iff key_prefix_defs slice_def FromBytes_def)

lemma NameHash_returns:
  "NameHash K ma = Returns
     (if length ma < 1 then Inl Empty
      else if ma ! 0 \<notin> {RecordTag K, RecordSpecificationTag K} then Inl (UnknownType (ma ! 0))
      else if length ma < 33 then Inl (TooShort 33 (length ma))
      else Inr (take 16 (drop 17 ma)))"
  by (auto simp: NameHash_def isTypeOneOf_iff key_prefix_defs slice_def slice_from_def copy_def Let_def)

lemma ScopeUUID_returns:
  "ScopeUUID K ma = Returns
     (if ma = [] \<or> ma ! 0 \<notin> {ScopeTag K, SessionTag K, RecordTag K} then Inl WrongType
      else if length ma < 17 then Inl (TooShort 17 (length ma))
      else Inr (take 16 (drop 1 ma)))"
  by (auto simp: ScopeUUID_def PrimaryUUID_returns isTypeOneOf_iff key_prefix_defs known_tag_def)

lemma ContractSpecUUID_returns:
  "ContractSpecUUID K ma = Returns
     (if ma = [] \<or> ma ! 0 \<notin> {ContractSpecificationTag K, RecordSpecificationTag K} then Inl WrongType
      else if length ma < 17 then Inl (TooShort 17 (length ma))
      else Inr (take 16 (drop 1 ma)))"
  by (auto simp: ContractSpecUUID_def PrimaryUUID_returns isTypeOneOf_iff key_prefix_defs known_tag_def)

lemma normalised_Foo:
  "ToLower L (TrimSpace L ''Foo'') = ''foo''"
  "ToLower L (TrimSpace L '' foo '') = ''foo''"
  "ToLower L (TrimSpace L ''FOO'') = ''foo''"
  by code_simp+

lemma distinct_example_keys: "distinct_keys example_keys"
  by (simp add: distinct_keys_def example_keys_def)

section \<open>Facts about GetDetails\<close>

lemma returns_with_bind:
  assumes "returns_with m Q" and "\<And>x. Q x \<Longrightarrow> returns_with (f x) P"
  shows "returns_with (Option.bind m f) P"
  using assms by (cases m) (simp_all add: returns_with_def)

lemma returns_with_if:
  assumes "c \<Longrightarrow> returns_with a P" and "\<not> c \<Longrightarrow> returns_with b P"
  shows "returns_with (if c then a else b) P"
  using assms by auto

lemma returns_with_Some [simp]: "returns_with (Some x) P = P x"
  by (simp add: returns_with_def)

lemma returns_withD: "returns_with m P \<Longrightarrow> \<exists>x. m = Some x \<and> P x"
  by (cases m) (auto simp: returns_with_def)

lemma Verify_returns: "\<exists>hrp err. VerifyMetadataAddressFormat K bz = Returns (hrp, err)"
  by (auto simp: Verify_cases split: option.splits)

lemma AsScopeAddress_returns: "\<exists>r. AsScopeAddress K ma = Returns r"
  by (simp add: AsScopeAddress_def ScopeUUID_returns ScopeMetadataAddress_def MarshalBinary_def)

lemma AsContractSpecAddress_returns: "\<exists>r. AsContractSpecAddress K ma = Returns r"
  by (simp add: AsContractSpecAddress_def ContractSpecUUID_returns ContractSpecMetadataAddress_def
      MarshalBinary_def)

lemma Prefix_returns:
  "Prefix K ma = Returns
     (if ma = [] then ([], Some Empty)
      else case type_switch K (ma ! 0) of
        None \<Rightarrow> ([], Some (UnknownType (ma ! 0)))
      | Some (hrp, n, s) \<Rightarrow> (hrp, None))"
  by (auto simp: Prefix_def Verify_cases type_switch_def PrefixScope_def PrefixSession_def
      PrefixRecord_def PrefixScopeSpecification_def PrefixContractSpecification_def
      PrefixRecordSpecification_def split: option.splits)

lemma IsScopeAddress_returns: "\<exists>r. IsScopeAddress K ma = Returns r"
  using Verify_returns [of K ma] by (auto simp: IsScopeAddress_def)

lemma IsContractSpecificationAddress_returns: "\<exists>r. IsContractSpecificationAddress K ma = Returns r"
  using Verify_returns [of K ma] by (auto simp: IsContractSpecificationAddress_def)

lemma copy_fresh: "copy (replicate (length ma) z) ma = ma"
  by (simp add: copy_def)

lemma take_one: "ma \<noteq> [] \<Longrightarrow> take (Suc 0) ma = [ma ! 0]"
  by (cases ma) auto

lemma expected_length_eq:
  assumes "SecondaryUUID K ma = Returns sec" and "NameHash K ma = Returns nh"
  shows "(if is_nil sec \<or> is_nil nh then 17 + 16 else 17) = expected_length K ma"
proof -
  from assms(1) have 1: "is_nil sec = (33 \<le> length ma \<and> ma ! 0 = SessionTag K)"
    unfolding SecondaryUUID_returns by (auto simp: is_nil_def split: if_splits)
  from assms(2) have 2: "is_nil nh = (33 \<le> length ma \<and> ma ! 0 \<in> {RecordTag K, RecordSpecificationTag K})"
    unfolding NameHash_returns by (auto simp: is_nil_def split: if_splits)
  show ?thesis
    unfolding 1 2 expected_length_def by auto
qed

text \<open>
  GetDetails returns on every input, and the prefix string and the excess fields of its
  result are these. The proof walks through the steps of the function: the prefix is set
  by the first step, the excess fields by the fifth, and no later step changes them.
\<close>

lemma GetDetails_fields:
  "returns_with (GetDetails K ma) (\<lambda>d. Address d = ma \<and> PrefixString d = prefix_text K ma
     \<and> AddressExcess d = drop (expected_length K ma) ma
     \<and> ExcessHex d = hex_EncodeToString (drop (expected_length K ma) ma)
     \<and> ExcessBase64 d = base64_EncodeToString (drop (expected_length K ma) ma))"
proof -
  obtain a where a: "IsScopeAddress K ma = Returns a"
    using IsScopeAddress_returns by blast
  obtain b where b: "AsScopeAddress K ma = Returns b"
    using AsScopeAddress_returns by blast
  obtain c where c: "IsContractSpecificationAddress K ma = Returns c"
    using IsContractSpecificationAddress_returns by blast
  obtain d where d: "AsContractSpecAddress K ma = Returns d"
    using AsContractSpecAddress_returns by blast
  obtain sec where sec: "SecondaryUUID K ma = Returns sec"
    by (simp add: SecondaryUUID_returns)
  obtain nh where nh: "NameHash K ma = Returns nh"
    by (simp add: NameHash_returns)
  note e = expected_length_eq [OF sec nh]
  let ?Q = "\<lambda>r. Address r = ma \<and> PrefixString r = prefix_text K ma \<and> AddressExcess r = []
              \<and> ExcessHex r = [] \<and> ExcessBase64 r = []"
  show ?thesis
    unfolding GetDetails_def copy_fresh Let_def
    apply (rule returns_with_bind [where Q = ?Q])
     apply (rule returns_with_if)
      apply (auto simp: Prefix_returns slice_def prefix_text_def zero_details_def take_one
        split: option.splits)[1]
     apply (cases ma; simp add: prefix_text_def zero_details_def)
    apply (rule returns_with_bind [where Q = ?Q])
     apply (simp add: slice_def)
    apply (simp only: sec nh bind.simps e)
    apply (rule returns_with_bind [where Q = "\<lambda>r. Address r = ma \<and> PrefixString r = prefix_text K ma
     \<and> AddressExcess r = drop (expected_length K ma) ma
     \<and> ExcessHex r = hex_EncodeToString (drop (expected_length K ma) ma)
     \<and> ExcessBase64 r = base64_EncodeToString (drop (expected_length K ma) ma)"])
     apply (rule returns_with_if)
      apply (cases sec; cases nh; simp add: slice_def slice_from_def)
     apply (cases sec; cases nh; simp add: hex_EncodeToString_def)
    apply (simp add: a b c d split: sum.splits)
    done
qed

lemma prefix_text_distinct:
  assumes "distinct_keys K" and "ma \<noteq> []"
  shows "prefix_text K ma =
     (if known_tag K (ma ! 0) then tag_prefix K (ma ! 0) else hex_EncodeToString [ma ! 0])"
proof (cases "known_tag K (ma ! 0)")
  case True
  with assms obtain s where
    "type_switch K (ma ! 0) = Some (tag_prefix K (ma ! 0), required_length K (ma ! 0), s)"
    using type_switch_spec by blast
  with assms True show ?thesis by (simp add: prefix_text_def)
next
  case False
  then have "type_switch K (ma ! 0) = None"
    using type_switch_known [of K "ma ! 0"] by (cases "type_switch K (ma ! 0)") auto
  with assms False show ?thesis by (simp add: prefix_text_def)
qed

section \<open>Facts about the bech32 instance\<close>

text \<open>
  The checksum. A step of the polynomial is linear over exclusive or: the six groups of
  the checksum, fed after the data, change the result of six zero groups by their own
  30 bits, and the checksum is chosen so that the result is 1.
\<close>

lemma fold_cond_xor:
  "fold (\<lambda>i c. if P i then c XOR g i else c) js (x :: 32 word)
     = x XOR fold (\<lambda>i c. if P i then c XOR g i else c) js 0"
proof (induction js arbitrary: x)
  case Nil
  show ?case by simp
next
  case (Cons j js)
  show ?case
  proof (cases "P j")
    case True
    with Cons.IH [of "x XOR g j"] Cons.IH [of "g j"] show ?thesis
      by (simp add: ac_simps)
  next
    case False
    with Cons.IH [of x] show ?thesis by simp
  qed
qed

lemma polymod_step_eq:
  "polymod_step chk v = (push_bit 5 (chk AND mask 25) XOR ucast v) XOR gen_part (drop_bit 25 chk)"
proof -
  have m: "(0x1ffffff :: 32 word) = mask 25"
    by (simp add: mask_eq_exp_minus_1)
  show ?thesis
    unfolding polymod_step_def Let_def gen_part_def m
    by (rule fold_cond_xor)
qed

lemma step_value: "polymod_step chk v = polymod_step chk 0 XOR ucast v"
  unfolding polymod_step_eq by (simp add: ac_simps)

lemma step_xor:
  assumes "take_bit 25 d = d"
  shows "polymod_step (chk XOR d) 0 = polymod_step chk 0 XOR push_bit 5 d"
proof -
  from assms have "drop_bit 25 d = 0"
    by (simp add: take_bit_eq_self_iff_drop_bit_eq_0)
  moreover from assms have "d AND mask 25 = d"
    by (simp add: take_bit_eq_mask)
  ultimately show ?thesis
    unfolding polymod_step_eq
    by (simp add: drop_bit_xor bit.conj_xor_distrib2 push_bit_xor ac_simps del: push_bit_and)
qed

lemma gen_part_bound: "take_bit 30 (gen_part t) = gen_part t"
  by (simp add: gen_part_def gen_def take_bit_eq_mask mask_eq_exp_minus_1)

lemma step_bound: "take_bit 30 (polymod_step chk v) = polymod_step chk v"
proof -
  have 1: "take_bit 30 (push_bit 5 (chk AND mask 25)) = push_bit 5 (chk AND mask 25)"
    by (rule bit_eqI) (auto simp: bit_simps)
  have 2: "take_bit 30 (ucast v :: 32 word) = ucast v"
    by (rule bit_eqI) (auto simp: bit_simps dest: bit_imp_le_length)
  show ?thesis
    unfolding polymod_step_eq take_bit_xor 1 2 gen_part_bound ..
qed

lemma take_bit_widen:
  fixes d :: "'a::len word"
  assumes "take_bit m d = d" and "m \<le> k"
  shows "take_bit k d = d"
proof -
  have "take_bit k d = take_bit k (take_bit m d)" using assms by simp
  also have "\<dots> = take_bit m d" using assms(2) by (simp add: min_def)
  finally show ?thesis using assms by simp
qed

lemma ucast_small:
  fixes v :: byte
  assumes "take_bit 5 v = v" and "5 \<le> k"
  shows "take_bit k (ucast v :: 32 word) = ucast v"
proof (rule bit_eqI)
  fix n
  have "bit v n \<Longrightarrow> n < 5"
    using assms(1) by (metis bit_take_bit_iff)
  with assms(2) show "bit (take_bit k (ucast v :: 32 word)) n = bit (ucast v :: 32 word) n"
    by (auto simp: bit_simps)
qed

lemma fold_step_xor:
  assumes "take_bit (30 - 5 * length vs) d = d" and "\<forall>v\<in>set vs. take_bit 5 v = v"
    and "length vs \<le> 6"
  shows "fold (\<lambda>v chk. polymod_step chk v) vs (S XOR d)
     = fold (\<lambda>v chk. polymod_step chk v) (replicate (length vs) 0) S
       XOR foldl (\<lambda>a v. push_bit 5 a XOR ucast v) d vs"
  using assms
proof (induction vs arbitrary: S d)
  case Nil
  show ?case by simp
next
  case (Cons v vs)
  from Cons.prems(1,3) have d25: "take_bit 25 d = d"
    by (rule_tac take_bit_widen [where m = "30 - 5 * length (v # vs)"]) auto
  let ?d = "push_bit 5 d XOR ucast v"
  have step: "polymod_step (S XOR d) v = polymod_step S 0 XOR ?d"
    using step_value [of "S XOR d" v] step_xor [OF d25, of S] by (simp add: ac_simps)
  from Cons.prems(3) have k: "30 - 5 * length vs = (30 - 5 * length (v # vs)) + 5"
    by simp
  from Cons.prems(2) have v5: "take_bit 5 v = v" by simp
  have "take_bit (30 - 5 * length vs) ?d = ?d"
    unfolding k take_bit_xor take_bit_push_bit
    using Cons.prems(1) ucast_small [OF v5, of "30 - 5 * length (v # vs) + 5"]
    by simp
  with Cons.IH [of ?d "polymod_step S 0"] Cons.prems(2,3)
  have "fold (\<lambda>v chk. polymod_step chk v) vs (polymod_step S 0 XOR ?d)
     = fold (\<lambda>v chk. polymod_step chk v) (replicate (length vs) 0) (polymod_step S 0)
       XOR foldl (\<lambda>a v. push_bit 5 a XOR ucast v) ?d vs"
    by simp
  with step show ?case by simp
qed

lemma mask5: "(31 :: 32 word) = mask 5"
  by (simp add: mask_eq_exp_minus_1)

lemma digit_step:
  fixes P :: "32 word"
  shows "push_bit m (ucast (ucast (drop_bit m P AND mask 5) :: byte) :: 32 word) XOR take_bit m P
           = take_bit (m + 5) P"
proof (rule bit_eqI)
  fix n
  show "bit (push_bit m (ucast (ucast (drop_bit m P AND mask 5) :: byte) :: 32 word) XOR take_bit m P) n
      = bit (take_bit (m + 5) P) n"
    by (auto simp: bit_simps dest: bit_imp_le_length)
qed

lemma pack_digits:
  fixes P :: "32 word"
  shows "foldl (\<lambda>a v. push_bit 5 a XOR ucast v) a
           (map (\<lambda>j. ucast (drop_bit (5 * j) P AND mask 5) :: byte) (rev [0..<k]))
         = push_bit (5 * k) a XOR take_bit (5 * k) P"
proof (induction k arbitrary: a)
  case 0
  show ?case by simp
next
  case (Suc k)
  have "foldl (\<lambda>a v. push_bit 5 a XOR ucast v) a
           (map (\<lambda>j. ucast (drop_bit (5 * j) P AND mask 5) :: byte) (rev [0..<Suc k]))
      = push_bit (5 * k) (push_bit 5 a XOR ucast (ucast (drop_bit (5 * k) P AND mask 5) :: byte))
          XOR take_bit (5 * k) P"
    using Suc.IH [of "push_bit 5 a XOR ucast (ucast (drop_bit (5 * k) P AND mask 5) :: byte)"]
    by simp
  also have "\<dots> = push_bit (5 * Suc k) a
      XOR (push_bit (5 * k) (ucast (ucast (drop_bit (5 * k) P AND mask 5) :: byte) :: 32 word)
           XOR take_bit (5 * k) P)"
    by (simp add: push_bit_xor push_bit_push_bit ac_simps)
  also have "\<dots> = push_bit (5 * Suc k) a XOR take_bit (5 * Suc k) P"
    unfolding digit_step by (simp add: add.commute)
  finally show ?case .
qed

lemma rev_upt_6: "rev [0..<6] = [5, 4, 3, 2, 1, 0 :: nat]"
  by code_simp

lemma pack_unpack:
  fixes P :: "32 word"
  assumes "take_bit 30 P = P"
  shows "foldl (\<lambda>a v. push_bit 5 a XOR ucast v) 0
           (map (\<lambda>i. ucast (drop_bit (5 * (5 - i)) P AND 31) :: byte) [0, 1, 2, 3, 4, 5]) = P"
proof -
  have "map (\<lambda>i. ucast (drop_bit (5 * (5 - i)) P AND 31) :: byte) [0, 1, 2, 3, 4, 5]
      = map (\<lambda>j. ucast (drop_bit (5 * j) P AND mask 5) :: byte) (rev [0..<6])"
    unfolding rev_upt_6 mask5 by simp
  with pack_digits [of 0 P 6] assms show ?thesis by simp
qed

lemma checksum_small:
  "\<forall>v\<in>set (createChecksum hrp data). take_bit 5 v = v"
proof -
  have "take_bit 5 (ucast (x AND 31) :: byte) = ucast (x AND 31)" for x :: "32 word"
    unfolding mask5 by (rule bit_eqI) (auto simp: bit_simps)
  then show ?thesis
    by (simp add: createChecksum_def Let_def)
qed

lemma fold_bound:
  "take_bit 30 (fold (\<lambda>v chk. polymod_step chk v) vs S) = fold (\<lambda>v chk. polymod_step chk v) vs S"
  if "take_bit 30 S = S"
  using that by (induction vs arbitrary: S) (simp_all add: step_bound)

lemma checksum_verifies: "verifyChecksum hrp (data @ createChecksum hrp data)"
proof -
  let ?f = "\<lambda>v chk. polymod_step chk v"
  let ?S = "fold ?f (hrpExpand hrp @ data) 1"
  let ?F = "fold ?f (replicate 6 0) ?S"
  let ?P = "?F XOR 1"
  have cs: "createChecksum hrp data
      = map (\<lambda>i. ucast (drop_bit (5 * (5 - i)) ?P AND 31) :: byte) [0, 1, 2, 3, 4, 5]"
    by (simp add: createChecksum_def Let_def bech32Polymod_def numeral_eq_Suc)
  have len: "length (createChecksum hrp data) = 6"
    by (simp add: createChecksum_def Let_def)
  have "take_bit 30 ?S = ?S"
    by (rule fold_bound) simp
  then have "take_bit 30 ?F = ?F"
    by (rule fold_bound)
  then have P30: "take_bit 30 ?P = ?P"
    by (simp add: take_bit_xor)
  have "fold ?f (createChecksum hrp data) (?S XOR 0)
      = fold ?f (replicate (length (createChecksum hrp data)) 0) ?S
        XOR foldl (\<lambda>a v. push_bit 5 a XOR ucast v) 0 (createChecksum hrp data)"
    by (rule fold_step_xor) (simp_all add: len checksum_small)
  also have "\<dots> = ?F XOR ?P"
    unfolding len unfolding cs pack_unpack [OF P30] ..
  also have "\<dots> = 1"
    by simp
  finally show ?thesis
    by (simp add: verifyChecksum_def bech32Polymod_def)
qed

text \<open>
  Regrouping: 8-bit bytes into 5-bit groups, padded with zero bits, and back.
\<close>

lemma length_bits_of [simp]: "length (bits_of n b) = n"
  by (simp add: bits_of_def)

lemma of_bits_bits_of_8: "of_bits (bits_of 8 b) = b"
proof -
  have "take_bit 8 b = b"
    by (rule bit_eqI) (auto simp: bit_simps dest: bit_imp_le_length)
  then show ?thesis
    by (simp add: of_bits_def bits_of_def horner_sum_bit_eq_take_bit)
qed

lemma bits_of_of_bits_5:
  assumes "length g = 5"
  shows "bits_of 5 (of_bits g) = g"
proof -
  have "map (bit (of_bits g)) [0..<5] = rev g"
    using assms by (intro nth_equalityI) (simp_all add: of_bits_def bit_horner_sum_bit_word_iff)
  then show ?thesis
    by (simp add: bits_of_def)
qed

lemma of_bits_small:
  assumes "length g = 5"
  shows "take_bit 5 (of_bits g) = of_bits g"
  using assms by (simp add: of_bits_def take_bit_horner_sum_bit_eq)

lemma length_groups [simp]: "length (groups n k bs) = k"
  by (induction k arbitrary: bs) simp_all

lemma groups_lengths:
  "n * k \<le> length bs \<Longrightarrow> g \<in> set (groups n k bs) \<Longrightarrow> length g = n"
proof (induction k arbitrary: bs)
  case 0
  then show ?case by simp
next
  case (Suc k)
  from Suc.prems(1) have "n \<le> length bs" "n * k \<le> length (drop n bs)"
    by (auto simp: algebra_simps)
  with Suc.IH [of "drop n bs"] Suc.prems(2) show ?case
    by auto
qed

lemma concat_groups:
  "n * k \<le> length bs \<Longrightarrow> concat (groups n k bs) = take (n * k) bs"
proof (induction k arbitrary: bs)
  case 0
  then show ?case by simp
next
  case (Suc k)
  from Suc.prems have "n * k \<le> length (drop n bs)"
    by (auto simp: algebra_simps)
  with Suc.IH [of "drop n bs"] show ?case
    by (simp add: take_add)
qed

lemma groups_concat:
  "\<forall>x\<in>set xss. length x = n \<Longrightarrow> groups n (length xss) (concat xss @ rest) = xss"
  by (induction xss) simp_all

lemma take_bit_5_unat:
  fixes v :: byte
  shows "(take_bit 5 v = v) = (unat v < 32)"
  using take_bit_nat_eq_self_iff [of 5 "unat v"]
  by (simp add: unsigned_take_bit_eq [symmetric] word_unat_eq_iff)

lemma ConvertBits_pad:
  "ConvertBits data fromBits toBits True =
     (let bs = concat (map (bits_of fromBits) data);
          k = length bs div toBits;
          rest = drop (k * toBits) bs;
          full = map of_bits (groups toBits k bs)
      in Inr (if rest = [] then full
              else full @ [of_bits (rest @ replicate (toBits - length rest) False)]))"
  by (simp add: ConvertBits_def Let_def)

lemma ConvertBits_8_5:
  "\<exists>d5 z. ConvertBits data 8 5 True = Inr d5
     \<and> (\<forall>v\<in>set d5. unat v < 32)
     \<and> concat (map (bits_of 5) d5) = concat (map (bits_of 8) data) @ replicate z False
     \<and> z < 5"
proof -
  define bs where "bs = concat (map (bits_of 8) data)"
  define k where "k = length bs div 5"
  define rest where "rest = drop (k * 5) bs"
  define gs where "gs = groups 5 k bs"
  define full where "full = map of_bits gs"
  have cb: "ConvertBits data 8 5 True =
      Inr (if rest = [] then full else full @ [of_bits (rest @ replicate (5 - length rest) False)])"
    unfolding ConvertBits_pad Let_def full_def gs_def rest_def k_def bs_def ..
  have k: "5 * k \<le> length bs"
    unfolding k_def by simp
  have g5: "length g = 5" if "g \<in> set gs" for g
    using groups_lengths [OF k] that unfolding gs_def by blast
  have full_small: "unat v < 32" if "v \<in> set full" for v
  proof -
    from that obtain g where "g \<in> set gs" and "v = of_bits g"
      unfolding full_def by auto
    with g5 [of g] of_bits_small [of g] show ?thesis
      by (simp add: take_bit_5_unat [symmetric])
  qed
  have "map (bits_of 5) full = map (\<lambda>g. g) gs"
    unfolding full_def map_map comp_def
    by (rule map_cong [OF refl]) (simp add: bits_of_of_bits_5 g5)
  then have "concat (map (bits_of 5) full) = concat gs"
    by simp
  also have "\<dots> = take (5 * k) bs"
    unfolding gs_def by (rule concat_groups [OF k])
  finally have full_bits: "concat (map (bits_of 5) full) = take (5 * k) bs" .
  have "length rest = length bs mod 5"
    unfolding rest_def k_def by (simp add: minus_div_mult_eq_mod)
  then have rest_len: "length rest < 5"
    by simp
  have split: "take (5 * k) bs @ rest = bs"
    unfolding rest_def by (simp add: mult.commute)
  show ?thesis
  proof (cases "rest = []")
    case True
    with split have "take (5 * k) bs = bs" by simp
    with full_bits have "concat (map (bits_of 5) full) = bs @ replicate 0 False"
      by simp
    moreover from cb True have "ConvertBits data 8 5 True = Inr full"
      by simp
    ultimately show ?thesis
      using full_small unfolding bs_def [symmetric] by (metis zero_less_numeral)
  next
    case False
    define lst where "lst = rest @ replicate (5 - length rest) False"
    have l5: "length lst = 5"
      unfolding lst_def using rest_len by simp
    have "concat (map (bits_of 5) (full @ [of_bits lst])) = take (5 * k) bs @ lst"
      using full_bits bits_of_of_bits_5 [OF l5] by simp
    also have "\<dots> = bs @ replicate (5 - length rest) False"
      unfolding lst_def using split by (metis append.assoc)
    finally have bits: "concat (map (bits_of 5) (full @ [of_bits lst]))
        = bs @ replicate (5 - length rest) False" .
    have "unat (of_bits lst) < 32"
      using of_bits_small [OF l5] by (simp add: take_bit_5_unat [symmetric])
    with full_small have small: "\<forall>v\<in>set (full @ [of_bits lst]). unat v < 32"
      by auto
    from False have z: "5 - length rest < 5"
      by (cases rest) auto
    from cb False have "ConvertBits data 8 5 True = Inr (full @ [of_bits lst])"
      unfolding lst_def by simp
    with bits small z show ?thesis
      unfolding bs_def [symmetric] by blast
  qed
qed

lemma ConvertBits_5_8:
  assumes "concat (map (bits_of 5) d5) = concat (map (bits_of 8) data) @ replicate z False"
    and "z < 5"
  shows "ConvertBits d5 5 8 False = Inr data"
proof -
  let ?bs = "concat (map (bits_of 8) data)"
  have len: "length ?bs = 8 * length data"
    by (induction data) simp_all
  have k: "length (?bs @ replicate z False) div 8 = length data"
    using assms(2) len by simp
  have rest: "drop (length data * 8) (?bs @ replicate z False) = replicate z False"
    using len by (simp add: mult.commute)
  have "groups 8 (length (map (bits_of 8) data)) (?bs @ replicate z False) = map (bits_of 8) data"
    by (rule groups_concat) simp
  then have full: "map of_bits (groups 8 (length data) (?bs @ replicate z False)) = data"
    by (simp add: map_idI of_bits_bits_of_8 comp_def)
  have "ConvertBits d5 5 8 False =
      (if 5 \<le> length (replicate z False) \<or> list_ex (\<lambda>b. b) (replicate z False)
       then Inl DecodeError else Inr data)"
    unfolding ConvertBits_def Let_def assms(1) k rest full by simp
  with assms(2) show ?thesis
    by (simp add: list_ex_iff)
qed

text \<open>
  The text: the decoder finds the separator, the prefix and the groups again.
\<close>

lemma charset_chars:
  "list_all (\<lambda>c. 33 \<le> (of_char c :: nat) \<and> (of_char c :: nat) \<le> 126 \<and> toLower c = c \<and> c \<noteq> CHR ''1'') charset"
  by code_simp

lemma charset_distinct: "distinct charset"
  by code_simp

lemma charset_length: "length charset = 32"
  by code_simp

lemma index_of_nth:
  "distinct xs \<Longrightarrow> i < length xs \<Longrightarrow> index_of (xs ! i) xs = Some i"
proof (induction xs arbitrary: i)
  case Nil
  then show ?case by simp
next
  case (Cons x xs)
  show ?case
  proof (cases i)
    case 0
    then show ?thesis by simp
  next
    case (Suc j)
    with Cons.prems have "xs ! j \<noteq> x" "index_of (xs ! j) xs = Some j"
      using Cons.IH [of j] by auto
    with Suc show ?thesis by simp
  qed
qed

lemma index_of_append:
  "x \<notin> set xs \<Longrightarrow> index_of x (xs @ x # ys) = Some (length xs)"
  by (induction xs) auto

lemma toBytes_chars:
  "\<forall>v\<in>set vs. unat v < 32 \<Longrightarrow> toBytes (map (\<lambda>b. charset ! unat b) vs) = Some vs"
proof (induction vs)
  case Nil
  show ?case by simp
next
  case (Cons v vs)
  then have "index_of (charset ! unat v) charset = Some (unat v)"
    by (intro index_of_nth) (simp_all add: charset_distinct charset_length)
  with Cons show ?case by simp
qed

lemma chars_in_charset:
  "\<forall>v\<in>set vs. unat v < 32 \<Longrightarrow> set (map (\<lambda>b. charset ! unat b) vs) \<subseteq> set charset"
  by (auto simp: charset_length)

lemma checksum_unat: "\<forall>v\<in>set (createChecksum hrp data). unat v < 32"
  using checksum_small [of hrp data] by (simp add: take_bit_5_unat)

lemma checksum_length: "length (createChecksum hrp data) = 6"
  by (simp add: createChecksum_def Let_def)

lemma bech32_Decode_Encode:
  assumes "hrp_ok hrp" and "\<forall>v\<in>set d5. unat v < 32"
    and "length hrp + length d5 + 7 \<le> 1023"
  shows "\<exists>s. bech32_Encode hrp d5 = Inr s \<and> bech32_Decode s = Inr (hrp, d5)
           \<and> s \<noteq> [] \<and> (\<forall>c\<in>set s. 33 \<le> (of_char c :: nat) \<and> (of_char c :: nat) \<le> 126)"
proof -
  define vs where "vs = d5 @ createChecksum hrp d5"
  define cs where "cs = map (\<lambda>b. charset ! unat b) vs"
  define s where "s = hrp @ CHR ''1'' # cs"
  have small: "\<forall>v\<in>set vs. unat v < 32"
    unfolding vs_def using assms(2) checksum_unat by auto
  have enc: "bech32_Encode hrp d5 = Inr s"
    using assms(2) by (simp add: bech32_Encode_def list_ex_iff s_def cs_def vs_def not_le)
  have cs_sub: "set cs \<subseteq> set charset"
    unfolding cs_def by (rule chars_in_charset [OF small])
  have cs_ok: "33 \<le> (of_char c :: nat) \<and> (of_char c :: nat) \<le> 126 \<and> toLower c = c \<and> c \<noteq> CHR ''1''"
    if "c \<in> set cs" for c
    using that cs_sub charset_chars by (auto simp: list_all_iff)
  have hrp_chars: "33 \<le> (of_char c :: nat) \<and> (of_char c :: nat) \<le> 126 \<and> toLower c = c"
    if "c \<in> set hrp" for c
    using that assms(1) by (auto simp: hrp_ok_def list_all_iff)
  have hrp_ne: "hrp \<noteq> []"
    using assms(1) by (simp add: hrp_ok_def)
  have s_chars: "33 \<le> (of_char c :: nat) \<and> (of_char c :: nat) \<le> 126 \<and> toLower c = c"
    if "c \<in> set s" for c
  proof -
    have one: "33 \<le> (of_char CHR ''1'' :: nat) \<and> (of_char CHR ''1'' :: nat) \<le> 126
        \<and> toLower CHR ''1'' = CHR ''1''"
      by (simp add: toLower_def)
    from that consider "c \<in> set hrp" | "c = CHR ''1''" | "c \<in> set cs"
      unfolding s_def by auto
    then show ?thesis
      using hrp_chars cs_ok one by cases auto
  qed
  have lower: "map toLower s = s"
    using s_chars by (simp add: map_idI)
  have range: "\<not> list_ex (\<lambda>c. (of_char c :: nat) < 33 \<or> (of_char c :: nat) > 126) s"
    by (auto simp: list_ex_iff dest!: s_chars)
  have len_cs: "length cs = length d5 + 6"
    unfolding cs_def vs_def by (simp add: checksum_length)
  have len_s: "length s = length hrp + 1 + length cs"
    unfolding s_def by simp
  have "CHR ''1'' \<notin> set (rev cs)"
    using cs_ok by auto
  then have "index_of CHR ''1'' (rev cs @ CHR ''1'' # rev hrp) = Some (length (rev cs))"
    by (rule index_of_append)
  then have last: "last_index CHR ''1'' s = Some (length hrp)"
    unfolding last_index_def s_def by simp
  have tk: "take (length hrp) s = hrp" and dr: "drop (length hrp + 1) s = cs"
    unfolding s_def by simp_all
  have tb: "toBytes cs = Some vs"
    unfolding cs_def by (rule toBytes_chars [OF small])
  have vc: "verifyChecksum hrp vs"
    unfolding vs_def by (rule checksum_verifies)
  have strip: "take (length vs - 6) vs = d5"
    unfolding vs_def by (simp add: checksum_length)
  have "bech32_Decode s = Inr (hrp, d5)"
    unfolding bech32_Decode_def Let_def lower
    using range last tk dr tb vc strip hrp_ne len_s len_cs assms(3)
    by (simp add: not_less)
  moreover have "s \<noteq> []"
    unfolding s_def by simp
  ultimately show ?thesis
    using enc s_chars by blast
qed

lemma TrimSpace_visible:
  assumes "\<forall>c\<in>set s. 33 \<le> (of_char c :: nat) \<and> (of_char c :: nat) \<le> 126"
  shows "TrimSpace L s = s"
proof -
  have ascii: "isASCII s"
    using assms by (auto simp: isASCII_def list_all_iff)
  have ns: "\<not> isSpace c" if "c \<in> set s" for c
    using assms that by (auto simp: isSpace_def)
  have d: "dropWhile isSpace xs = xs" if "set xs \<subseteq> set s" for xs
    using that ns by (cases xs) auto
  have "dropWhile isSpace s = s" "dropWhile isSpace (rev s) = rev s"
    by (simp_all add: d)
  with ascii show ?thesis
    by (simp add: TrimSpace_def)
qed

lemma length_concat_bits_of: "length (concat (map (bits_of n) xs)) = n * length xs"
  by (induction xs) simp_all

lemma bech32_codec_roundtrip:
  assumes "ConvertAndEncode L = bech32_ConvertAndEncode"
    and "DecodeAndConvert L = bech32_DecodeAndConvert" and "hrp_ok hrp"
    and "length hrp + (8 * length bz + 4) div 5 + 7 \<le> 1023"
  shows "codec_roundtrip L hrp bz"
proof -
  obtain d5 z where c85: "ConvertBits bz 8 5 True = Inr d5"
    and small: "\<forall>v\<in>set d5. unat v < 32"
    and bits: "concat (map (bits_of 5) d5) = concat (map (bits_of 8) bz) @ replicate z False"
    and z: "z < 5"
    using ConvertBits_8_5 [of bz] by blast
  have "length (concat (map (bits_of 5) d5))
      = length (concat (map (bits_of 8) bz) @ replicate z False)"
    by (simp only: bits)
  then have "5 * length d5 = 8 * length bz + z"
    by (simp add: length_concat_bits_of)
  with z have "length d5 \<le> (8 * length bz + 4) div 5"
    by arith
  with assms(4) have "length hrp + length d5 + 7 \<le> 1023"
    by arith
  with assms(3) small obtain s where enc: "bech32_Encode hrp d5 = Inr s"
    and dec: "bech32_Decode s = Inr (hrp, d5)" and ne: "s \<noteq> []"
    and vis: "\<forall>c\<in>set s. 33 \<le> (of_char c :: nat) \<and> (of_char c :: nat) \<le> 126"
    using bech32_Decode_Encode by blast
  have c58: "ConvertBits d5 5 8 False = Inr bz"
    using bits z by (rule ConvertBits_5_8)
  have "ConvertAndEncode L hrp bz = Inr s"
    by (simp add: assms(1) bech32_ConvertAndEncode_def c85 enc)
  moreover have "DecodeAndConvert L s = Inr (hrp, bz)"
    by (simp add: assms(2) bech32_DecodeAndConvert_def dec c58)
  moreover have "TrimSpace L s \<noteq> []"
    using TrimSpace_visible [OF vis] ne by simp
  ultimately show ?thesis
    by (simp add: codec_roundtrip_def)
qed

lemma hrp_ok_prefixes:
  "hrp_ok PrefixScope" "hrp_ok PrefixSession" "hrp_ok PrefixRecord"
  "hrp_ok PrefixScopeSpecification" "hrp_ok PrefixContractSpecification"
  "hrp_ok PrefixRecordSpecification"
  by code_simp+

lemma hrp_ok_expected_prefix: "hrp_ok (expected_prefix i)"
  by (cases i) (simp_all add: hrp_ok_prefixes)

lemma length_expected_prefix: "length (expected_prefix i) \<le> 12"
  by (cases i)
    (simp_all add: PrefixScope_def PrefixSession_def PrefixRecord_def
      PrefixScopeSpecification_def PrefixContractSpecification_def PrefixRecordSpecification_def)

lemma valid_address_length: "valid_address K a \<Longrightarrow> length a \<le> 33"
  by (simp add: valid_address_def required_length_def)

section \<open>Facts about the text form\<close>

lemma Encode_valid:
  assumes "distinct_keys K" and "hash_ok L" and "valid_identity L i"
  shows "\<exists>a. Encode K L i = Returns a \<and> valid_address K a \<and> tag_prefix K (a ! 0) = expected_prefix i"
proof (cases i)
  case (Scope u)
  with assms show ?thesis
    by (auto simp: ScopeMetadataAddress_def MarshalBinary_def ScopeKeyPrefix_def valid_address_def
        known_tag_def required_length_def tag_prefix_def)
next
  case (Session u s)
  with assms show ?thesis
    by (auto simp: SessionMetadataAddress_def MarshalBinary_def SessionKeyPrefix_def
        valid_address_def known_tag_def required_length_def tag_prefix_def distinct_keys_def)
next
  case (Record u name)
  with assms show ?thesis
    by (auto simp: RecordMetadataAddress_def MarshalBinary_def RecordKeyPrefix_def Let_def
        valid_address_def known_tag_def required_length_def tag_prefix_def distinct_keys_def
        hash_ok_def)
next
  case (ScopeSpecification u)
  with assms show ?thesis
    by (auto simp: ScopeSpecMetadataAddress_def MarshalBinary_def ScopeSpecificationKeyPrefix_def
        valid_address_def known_tag_def required_length_def tag_prefix_def distinct_keys_def)
next
  case (ContractSpecification u)
  with assms show ?thesis
    by (auto simp: ContractSpecMetadataAddress_def MarshalBinary_def
        ContractSpecificationKeyPrefix_def valid_address_def known_tag_def required_length_def
        tag_prefix_def distinct_keys_def)
next
  case (RecordSpecification u name)
  with assms show ?thesis
    by (auto simp: RecordSpecMetadataAddress_def MarshalBinary_def RecordSpecificationKeyPrefix_def
        Let_def valid_address_def known_tag_def required_length_def tag_prefix_def
        distinct_keys_def hash_ok_def)
qed

lemma String_valid:
  assumes "VerifyMetadataAddressFormat K a = Returns (hrp, None)"
    and "ConvertAndEncode L hrp a = Inr str"
  shows "String K L a = Returns str"
proof -
  from assms(1) have "a \<noteq> []"
    by (auto simp: Verify_cases)
  with assms show ?thesis
    by (simp add: String_def Empty_addr_def)
qed

lemma Parse_valid:
  assumes "VerifyMetadataAddressFormat K a = Returns (expectedHrp, None)"
    and "DecodeAndConvert L str = Inr (hrp, a)" and "TrimSpace L str \<noteq> []"
  shows "ParseMetadataAddressFromBech32 K L str =
     Returns (if expectedHrp \<noteq> hrp then Inl (PrefixMismatch expectedHrp hrp) else Inr (a, hrp))"
  using assms by (simp add: ParseMetadataAddressFromBech32_def)

text \<open>
  The example address in text, under its own prefix and relabelled as a session, computed
  with the bech32 functions of the instance.
\<close>

lemma example_scope_text:
  "bech32_ConvertAndEncode ''scope'' (0 # example_uuid) = Inr ''scope1qzxcpvj6czy5g354dews3nlruxjsahhnsp''"
  by code_simp

lemma example_scope_decode:
  "bech32_DecodeAndConvert ''scope1qzxcpvj6czy5g354dews3nlruxjsahhnsp'' = Inr (''scope'', 0 # example_uuid)"
  by code_simp

lemma example_relabelled_text:
  "bech32_ConvertAndEncode ''session'' (0 # example_uuid) = Inr ''session1qzxcpvj6czy5g354dews3nlruxjs5rn2kd''"
  by code_simp

lemma example_relabelled_decode:
  "bech32_DecodeAndConvert ''session1qzxcpvj6czy5g354dews3nlruxjs5rn2kd'' = Inr (''session'', 0 # example_uuid)"
  by code_simp

lemma example_not_blank:
  "TrimSpace example_lib ''scope1qzxcpvj6czy5g354dews3nlruxjsahhnsp'' \<noteq> []"
  "TrimSpace example_lib ''session1qzxcpvj6czy5g354dews3nlruxjs5rn2kd'' \<noteq> []"
  by code_simp+

lemma hash_ok_example: "hash_ok example_lib"
  by (simp add: hash_ok_def example_lib_def)

lemma example_lib_fields:
  "ConvertAndEncode example_lib = bech32_ConvertAndEncode"
  "DecodeAndConvert example_lib = bech32_DecodeAndConvert"
  "Sum256 example_lib m = replicate 32 (of_nat (length m))"
  by (simp_all add: example_lib_def)

lemma Verify_example_scope:
  "VerifyMetadataAddressFormat example_keys (0 # example_uuid) = Returns (''scope'', None)"
  by (simp add: Verify_cases type_switch_def key_prefix_defs example_keys_def example_uuid_def
      PrefixScope_def)

lemma example_record_text:
  "bech32_ConvertAndEncode ''record'' (2 # example_uuid @ replicate 16 3)
     = Inr ''record1q2xcpvj6czy5g354dews3nlruxjsxqcrqvpsxqcrqvpsxqcrqvpsxj43d9d''"
  by code_simp

lemma example_record_decode:
  "bech32_DecodeAndConvert ''record1q2xcpvj6czy5g354dews3nlruxjsxqcrqvpsxqcrqvpsxqcrqvpsxj43d9d''
     = Inr (''record'', 2 # example_uuid @ replicate 16 3)"
  by code_simp

lemma example_record_not_blank:
  "TrimSpace example_lib ''record1q2xcpvj6czy5g354dews3nlruxjsxqcrqvpsxqcrqvpsxqcrqvpsxj43d9d'' \<noteq> []"
  by code_simp

lemma example_record_address:
  "Encode example_keys example_lib (Record example_uuid '' Foo '')
     = Returns (2 # example_uuid @ replicate 16 3)"
proof -
  have n: "ToLower example_lib (TrimSpace example_lib '' Foo '') = ''foo''"
    by code_simp
  have k: "RecordKeyPrefix example_keys = [2]"
    by (simp add: RecordKeyPrefix_def example_keys_def)
  show ?thesis
    by (simp add: RecordMetadataAddress_def MarshalBinary_def Let_def n k example_lib_fields
        to_bytes_def)
qed

section \<open>Facts about ValidateForScopes\<close>

lemma tag_prefix_scope:
  assumes "distinct_keys K" and "known_tag K t"
  shows "(tag_prefix K t = PrefixScope) = (t = ScopeTag K)"
  using assms
  by (auto simp: tag_prefix_def known_tag_def distinct_keys_def PrefixScope_def PrefixSession_def
      PrefixRecord_def PrefixScopeSpecification_def PrefixContractSpecification_def
      PrefixRecordSpecification_def)

lemma Verify_spec:
  assumes "distinct_keys K"
  shows "\<exists>hrp. VerifyMetadataAddressFormat K a = Returns (hrp, spec_Validate K a)
           \<and> (spec_Validate K a = None \<longrightarrow> hrp = tag_prefix K (a ! 0))"
proof (cases "a \<noteq> [] \<and> known_tag K (a ! 0)")
  case True
  with assms obtain s where
    "type_switch K (a ! 0) = Some (tag_prefix K (a ! 0), required_length K (a ! 0), s)"
    using type_switch_spec by blast
  with True show ?thesis
    by (simp add: Verify_cases spec_Validate_def)
next
  case False
  then consider "a = []" | "a \<noteq> []" "type_switch K (a ! 0) = None"
    using type_switch_known [of K "a ! 0"] by (cases "type_switch K (a ! 0)") auto
  then show ?thesis
  proof cases
    case 1
    then show ?thesis by (simp add: Verify_cases spec_Validate_def)
  next
    case 2
    with False show ?thesis by (simp add: Verify_cases spec_Validate_def)
  qed
qed

lemma ValidateIsScopeAddress_spec:
  assumes "distinct_keys K"
  shows "ValidateIsScopeAddress K a = Returns (NotAScopeAddress K a)"
proof -
  from assms obtain hrp where v: "VerifyMetadataAddressFormat K a = Returns (hrp, spec_Validate K a)"
    and h: "spec_Validate K a = None \<Longrightarrow> hrp = tag_prefix K (a ! 0)"
    using Verify_spec by blast
  show ?thesis
  proof (cases "spec_Validate K a")
    case None
    then have "known_tag K (a ! 0)"
      by (auto simp: spec_Validate_def split: if_splits)
    with assms have "(tag_prefix K (a ! 0) = PrefixScope) = (a ! 0 = ScopeTag K)"
      by (rule tag_prefix_scope)
    with None v h show ?thesis
      by (auto simp: ValidateIsScopeAddress_def VerifyMetadataAddressHasType_def NotAScopeAddress_def)
  next
    case (Some e)
    with v show ?thesis
      by (simp add: ValidateIsScopeAddress_def VerifyMetadataAddressHasType_def NotAScopeAddress_def)
  qed
qed

lemma ValidateForScopes_loop_spec:
  assumes "distinct_keys K" and "\<And>k. seen k = (if k \<in> set l then 1 else 0)"
  shows "ValidateForScopes_loop K seen links = Returns (spec_ValidateForScopes K l links)"
  using assms(2)
proof (induction links arbitrary: seen l)
  case Nil
  show ?case by simp
next
  case (Cons x links)
  show ?case
  proof (cases x)
    case None
    then show ?thesis by simp
  next
    case (Some link)
    show ?thesis
    proof (cases "MDAddr link \<in> set l")
      case True
      with Cons.prems have "seen (MDAddr link) = 1" by simp
      with Some True show ?thesis by simp
    next
      case False
      with Cons.prems have s0: "seen (MDAddr link) = 0" by simp
      note v = ValidateIsScopeAddress_spec [OF assms(1), of "MDAddr link"]
      show ?thesis
      proof (cases "NotAScopeAddress K (MDAddr link)")
        case (Some e)
        with \<open>x = Some link\<close> False s0 v show ?thesis by simp
      next
        case None
        have inv: "(seen(MDAddr link := 1)) k = (if k \<in> set (MDAddr link # l) then 1 else 0)" for k
          using Cons.prems by simp
        from Cons.IH [of "seen(MDAddr link := 1)" "MDAddr link # l"] inv
        have "ValidateForScopes_loop K (seen(MDAddr link := 1)) links
            = Returns (spec_ValidateForScopes K (MDAddr link # l) links)"
          by blast
        with \<open>x = Some link\<close> False s0 v None show ?thesis by simp
      qed
    qed
  qed
qed

section \<open>Claims\<close>

text \<open>
  C1. For every byte sequence \<open>b\<close>, Validate (VerifyMetadataAddressFormat) succeeds if and
  only if \<open>b\<close> is non-empty, \<open>b[0]\<close> is one of the six known type tags and the length of \<open>b\<close>
  is the length that tag requires (17 for Scope, ScopeSpecification and
  ContractSpecification, 33 for Session, Record and RecordSpecification). The two 16-byte
  UUID slice checks never fail: the function never panics and never returns the UUID
  error.
\<close>

theorem C1_Validate_iff:
  assumes "distinct_keys K"
  shows "((Validate K b = Returns None) =
           (0 < length b \<and> known_tag K (b ! 0) \<and> length b = required_length K (b ! 0)))
       \<and> VerifyMetadataAddressFormat K b \<noteq> Panics
       \<and> VerifyMetadataAddressFormat K b \<noteq> Returns (hrp, Some MalformedUUID)"
proof -
  have "(Validate K b = Returns None) = (\<exists>hrp. VerifyMetadataAddressFormat K b = Returns (hrp, None))"
    by (auto simp: Validate_def bind_eq_Some_conv)
  with assms have "(Validate K b = Returns None) =
      (0 < length b \<and> known_tag K (b ! 0) \<and> length b = required_length K (b ! 0))"
    using Verify_succeeds_iff [of K b] by (simp add: valid_address_def)
  moreover have "VerifyMetadataAddressFormat K b \<noteq> Panics"
    by (simp add: Verify_cases split: option.splits)
  moreover have "VerifyMetadataAddressFormat K b \<noteq> Returns (hrp, Some MalformedUUID)"
    by (simp add: Verify_cases split: option.splits)
  ultimately show ?thesis by blast
qed

theorem C1_Validate_iff_witness:
  "distinct_keys example_keys
   \<and> Validate example_keys (0 # replicate 16 7) = Returns None
   \<and> Validate example_keys (0 # replicate 17 7) \<noteq> Returns None
   \<and> Validate example_keys (1 # replicate 32 7) = Returns None
   \<and> Validate example_keys [9] \<noteq> Returns None"
proof -
  have d: "distinct_keys example_keys"
    by (simp add: distinct_keys_def example_keys_def)
  show ?thesis
    using d C1_Validate_iff [OF d, of "0 # replicate 16 7"] C1_Validate_iff [OF d, of "0 # replicate 17 7"]
      C1_Validate_iff [OF d, of "1 # replicate 32 7"] C1_Validate_iff [OF d, of "[9]"]
    by (simp add: known_tag_def required_length_def example_keys_def)
qed

text \<open>
  C2. For every valid identity of each of the six types, the text of the freshly encoded
  address parses back to the bytes of the address and the prefix of the type, with no
  error. The bech32 package is a library: the round trip holds for every codec that
  decodes the text it made of this prefix and this address back to them, and the BIP-173
  codec of the instance does so for every address, so that with it the round trip holds
  with no condition. A valid identity has UUIDs of 16 bytes and, where a name is
  required, a name that \<^verbatim>\<open>strings.TrimSpace\<close> and \<^verbatim>\<open>strings.ToLower\<close> do not make empty.
\<close>

theorem C2_roundtrip:
  assumes "distinct_keys K" and "hash_ok L" and "valid_identity L i"
  shows "\<exists>a. Encode K L i = Returns a
     \<and> (codec_roundtrip L (expected_prefix i) a \<longrightarrow>
         (\<exists>str. String K L a = Returns str
            \<and> ParseMetadataAddressFromBech32 K L str = Returns (Inr (a, expected_prefix i))))
     \<and> (ConvertAndEncode L = bech32_ConvertAndEncode
          \<and> DecodeAndConvert L = bech32_DecodeAndConvert \<longrightarrow>
         (\<exists>str. String K L a = Returns str
            \<and> ParseMetadataAddressFromBech32 K L str = Returns (Inr (a, expected_prefix i))))"
proof -
  from assms obtain a where a: "Encode K L i = Returns a" and v: "valid_address K a"
    and p: "tag_prefix K (a ! 0) = expected_prefix i"
    using Encode_valid by blast
  from assms(1) v p have ver: "VerifyMetadataAddressFormat K a = Returns (expected_prefix i, None)"
    using Verify_valid by fastforce
  have rt: "\<exists>str. String K L a = Returns str
      \<and> ParseMetadataAddressFromBech32 K L str = Returns (Inr (a, expected_prefix i))"
    if c: "codec_roundtrip L (expected_prefix i) a"
  proof -
    from c obtain str where e: "ConvertAndEncode L (expected_prefix i) a = Inr str"
      and t: "TrimSpace L str \<noteq> []" and d: "DecodeAndConvert L str = Inr (expected_prefix i, a)"
      by (auto simp: codec_roundtrip_def split: sum.splits)
    from ver e have "String K L a = Returns str"
      by (rule String_valid)
    moreover from ver d t have "ParseMetadataAddressFromBech32 K L str = Returns (Inr (a, expected_prefix i))"
      by (simp add: Parse_valid)
    ultimately show ?thesis by blast
  qed
  have "length (expected_prefix i) + (8 * length a + 4) div 5 + 7 \<le> 1023"
    using length_expected_prefix [of i] valid_address_length [OF v] by arith
  then have "codec_roundtrip L (expected_prefix i) a"
    if "ConvertAndEncode L = bech32_ConvertAndEncode
          \<and> DecodeAndConvert L = bech32_DecodeAndConvert"
    using that hrp_ok_expected_prefix [of i] by (intro bech32_codec_roundtrip) simp_all
  with a rt show ?thesis by blast
qed

theorem C2_roundtrip_witness:
  "distinct_keys example_keys \<and> hash_ok example_lib
   \<and> valid_identity example_lib (Scope example_uuid)
   \<and> Encode example_keys example_lib (Scope example_uuid) = Returns (0 # example_uuid)
   \<and> ConvertAndEncode example_lib = bech32_ConvertAndEncode
   \<and> DecodeAndConvert example_lib = bech32_DecodeAndConvert
   \<and> codec_roundtrip example_lib ''scope'' (0 # example_uuid)
   \<and> codec_roundtrip example_lib ''record'' (2 # example_uuid @ replicate 16 3)
   \<and> String example_keys example_lib (0 # example_uuid)
        = Returns ''scope1qzxcpvj6czy5g354dews3nlruxjsahhnsp''
   \<and> ParseMetadataAddressFromBech32 example_keys example_lib ''scope1qzxcpvj6czy5g354dews3nlruxjsahhnsp''
        = Returns (Inr (0 # example_uuid, ''scope''))
   \<and> valid_identity example_lib (Record example_uuid '' Foo '')
   \<and> Encode example_keys example_lib (Record example_uuid '' Foo '')
        = Returns (2 # example_uuid @ replicate 16 3)
   \<and> (\<exists>str. String example_keys example_lib (2 # example_uuid @ replicate 16 3) = Returns str
          \<and> ParseMetadataAddressFromBech32 example_keys example_lib str
              = Returns (Inr (2 # example_uuid @ replicate 16 3, ''record'')))"
proof -
  have v: "valid_identity example_lib (Scope example_uuid)"
    by (simp add: example_uuid_def)
  have e: "Encode example_keys example_lib (Scope example_uuid) = Returns (0 # example_uuid)"
    by (simp add: ScopeMetadataAddress_def MarshalBinary_def ScopeKeyPrefix_def example_keys_def)
  have s: "String example_keys example_lib (0 # example_uuid)
        = Returns ''scope1qzxcpvj6czy5g354dews3nlruxjsahhnsp''"
    by (rule String_valid [OF Verify_example_scope]) (simp add: example_lib_fields example_scope_text)
  from C2_roundtrip [OF distinct_example_keys hash_ok_example v] e s
  have p: "ParseMetadataAddressFromBech32 example_keys example_lib ''scope1qzxcpvj6czy5g354dews3nlruxjsahhnsp''
        = Returns (Inr (0 # example_uuid, ''scope''))"
    by (auto simp: PrefixScope_def example_lib_fields)
  have n: "ToLower example_lib (TrimSpace example_lib '' Foo '') = ''foo''"
    by code_simp
  have v2: "valid_identity example_lib (Record example_uuid '' Foo '')"
    by (simp add: example_uuid_def n)
  from C2_roundtrip [OF distinct_example_keys hash_ok_example v2] example_record_address
  have p2: "\<exists>str. String example_keys example_lib (2 # example_uuid @ replicate 16 3) = Returns str
          \<and> ParseMetadataAddressFromBech32 example_keys example_lib str
              = Returns (Inr (2 # example_uuid @ replicate 16 3, ''record''))"
    by (auto simp: PrefixRecord_def example_lib_fields)
  have c: "codec_roundtrip example_lib ''scope'' (0 # example_uuid)"
    using hrp_ok_prefixes(1)
    by (intro bech32_codec_roundtrip)
      (simp_all add: example_lib_fields PrefixScope_def example_uuid_def)
  have c2: "codec_roundtrip example_lib ''record'' (2 # example_uuid @ replicate 16 3)"
    using hrp_ok_prefixes(3)
    by (intro bech32_codec_roundtrip)
      (simp_all add: example_lib_fields PrefixRecord_def example_uuid_def)
  from distinct_example_keys hash_ok_example v e s p v2 example_record_address p2 c c2
    example_lib_fields(1,2)
  show ?thesis by blast
qed

text \<open>
  C3. A text that decodes, checksum and all, to the bytes of a valid address under a
  prefix other than the one the bytes give is rejected by ParseMetadataAddressFromBech32
  with the PrefixMismatch error: the prefix VerifyMetadataAddressFormat recovers from the
  bytes is compared with the decoded one.
\<close>

theorem C3_prefix_mismatch:
  "TrimSpace L str \<noteq> [] \<and> DecodeAndConvert L str = Inr (hrp, bz)
     \<and> VerifyMetadataAddressFormat K bz = Returns (expectedHrp, None) \<and> hrp \<noteq> expectedHrp
   \<longrightarrow> ParseMetadataAddressFromBech32 K L str = Returns (Inl (PrefixMismatch expectedHrp hrp))"
  by (auto simp: Parse_valid)

theorem C3_prefix_mismatch_witness:
  "ConvertAndEncode example_lib ''session'' (0 # example_uuid)
     = Inr ''session1qzxcpvj6czy5g354dews3nlruxjs5rn2kd''
   \<and> VerifyMetadataAddressFormat example_keys (0 # example_uuid) = Returns (''scope'', None)
   \<and> ParseMetadataAddressFromBech32 example_keys example_lib ''session1qzxcpvj6czy5g354dews3nlruxjs5rn2kd''
     = Returns (Inl (PrefixMismatch ''scope'' ''session''))"
proof -
  have d: "DecodeAndConvert example_lib ''session1qzxcpvj6czy5g354dews3nlruxjs5rn2kd''
      = Inr (''session'', 0 # example_uuid)"
    by (simp add: example_lib_def example_relabelled_decode)
  have n: "''session'' \<noteq> ''scope''" by simp
  from C3_prefix_mismatch [where str = "''session1qzxcpvj6czy5g354dews3nlruxjs5rn2kd''"
      and L = example_lib and hrp = "''session''" and bz = "0 # example_uuid"
      and K = example_keys and expectedHrp = "''scope''"]
    example_not_blank(2) d Verify_example_scope n
  have "ParseMetadataAddressFromBech32 example_keys example_lib ''session1qzxcpvj6czy5g354dews3nlruxjs5rn2kd''
     = Returns (Inl (PrefixMismatch ''scope'' ''session''))"
    by blast
  moreover have "ConvertAndEncode example_lib ''session'' (0 # example_uuid)
     = Inr ''session1qzxcpvj6czy5g354dews3nlruxjs5rn2kd''"
    by (simp add: example_lib_def example_relabelled_text)
  ultimately show ?thesis using Verify_example_scope by blast
qed

text \<open>
  C4. On a valid ContractSpecification or RecordSpecification address and the empty name,
  AsRecordSpecAddress should return the InvalidInput error. It does not: it hands the
  empty name to RecordSpecMetadataAddress, which panics. The sibling AsRecordAddress
  checks the name first and returns the error on every valid Scope, Session or Record
  address.
\<close>

theorem C4_AsRecordSpecAddress_empty_name:
  "(Validate K ma = Returns None
      \<and> ma ! 0 \<in> {ContractSpecificationTag K, RecordSpecificationTag K} \<longrightarrow>
        AsRecordSpecAddress K L ma [] = Panics)
   \<and> (Validate K ma = Returns None \<and> ma ! 0 \<in> {ScopeTag K, SessionTag K, RecordTag K} \<longrightarrow>
        AsRecordAddress K L ma [] = Returns (Inl InvalidInput))"
proof (intro conjI impI)
  assume a: "Validate K ma = Returns None
      \<and> ma ! 0 \<in> {ContractSpecificationTag K, RecordSpecificationTag K}"
  then have "length ma = 17 \<or> length ma = 33"
    using Validate_length by blast
  with a have "ContractSpecUUID K ma = Returns (Inr (take 16 (drop 1 ma)))"
    by (auto simp: ContractSpecUUID_returns)
  then show "AsRecordSpecAddress K L ma [] = Panics"
    by (simp add: AsRecordSpecAddress_def RecordSpecMetadataAddress_def MarshalBinary_def
        TrimSpace_def ToLower_def isASCII_def)
next
  assume a: "Validate K ma = Returns None \<and> ma ! 0 \<in> {ScopeTag K, SessionTag K, RecordTag K}"
  then have "length ma = 17 \<or> length ma = 33"
    using Validate_length by blast
  with a have "ScopeUUID K ma = Returns (Inr (take 16 (drop 1 ma)))"
    by (auto simp: ScopeUUID_returns)
  then show "AsRecordAddress K L ma [] = Returns (Inl InvalidInput)"
    by (simp add: AsRecordAddress_def)
qed

theorem C4_AsRecordSpecAddress_empty_name_witness:
  "Validate example_keys (3 # example_uuid) = Returns None
   \<and> AsRecordSpecAddress example_keys example_lib (3 # example_uuid) [] = Panics
   \<and> Validate example_keys (0 # example_uuid) = Returns None
   \<and> AsRecordAddress example_keys example_lib (0 # example_uuid) [] = Returns (Inl InvalidInput)"
proof -
  have v: "Validate example_keys (3 # example_uuid) = Returns None"
    "Validate example_keys (0 # example_uuid) = Returns None"
    by (simp_all add: Validate_def Verify_cases type_switch_def key_prefix_defs example_keys_def
        example_uuid_def)
  show ?thesis
    using v C4_AsRecordSpecAddress_empty_name [of example_keys "3 # example_uuid" example_lib]
      C4_AsRecordSpecAddress_empty_name [of example_keys "0 # example_uuid" example_lib]
    by (simp add: example_keys_def)
qed

text \<open>
  C5. ScopeSessionIteratorPrefix returns the session tag alone, with no error, on the empty
  address. On every valid Scope, Session or Record address, whose scope UUID is \<open>U\<close>, it
  returns the 17 bytes made of the session tag and \<open>U\<close>, with no error. On every valid
  address of another type it returns the WrongType error. This holds whatever the
  capacity of the slice is.
\<close>

theorem C5_ScopeSessionIteratorPrefix:
  "ScopeSessionIteratorPrefix K [] spare = Returns (Inr [SessionTag K])
   \<and> (Validate K ma = Returns None \<and> ma ! 0 \<in> {ScopeTag K, SessionTag K, RecordTag K} \<longrightarrow>
        (\<exists>U. ScopeUUID K ma = Returns (Inr U) \<and> length U = 16
           \<and> ScopeSessionIteratorPrefix K ma spare = Returns (Inr (SessionTag K # U))))
   \<and> (Validate K ma = Returns None \<and> ma ! 0 \<notin> {ScopeTag K, SessionTag K, RecordTag K} \<longrightarrow>
        ScopeSessionIteratorPrefix K ma spare = Returns (Inl WrongType))"
proof (intro conjI impI)
  show "ScopeSessionIteratorPrefix K [] spare = Returns (Inr [SessionTag K])"
    by (simp add: ScopeSessionIteratorPrefix_def SessionKeyPrefix_def)
next
  assume a: "Validate K ma = Returns None \<and> ma ! 0 \<in> {ScopeTag K, SessionTag K, RecordTag K}"
  then have len: "length ma = 17 \<or> length ma = 33"
    using Validate_length by blast
  then have ne: "ma \<noteq> []" by auto
  from a have t: "isTypeOneOf ma [ScopeKeyPrefix K, SessionKeyPrefix K, RecordKeyPrefix K]"
    using ne by (auto simp: isTypeOneOf_iff key_prefix_defs)
  have s: "slice_cap ma spare 1 17 = Returns (take 16 (drop 1 ma))"
    using len by (auto simp: slice_cap_def)
  have "ScopeUUID K ma = Returns (Inr (take 16 (drop 1 ma)))"
    using a ne len by (auto simp: ScopeUUID_returns)
  moreover have "length (take 16 (drop 1 ma)) = 16"
    using len by auto
  moreover have "ScopeSessionIteratorPrefix K ma spare
      = Returns (Inr (SessionTag K # take 16 (drop 1 ma)))"
    using t ne s by (simp add: ScopeSessionIteratorPrefix_def SessionKeyPrefix_def)
  ultimately show "\<exists>U. ScopeUUID K ma = Returns (Inr U) \<and> length U = 16
           \<and> ScopeSessionIteratorPrefix K ma spare = Returns (Inr (SessionTag K # U))"
    by blast
next
  assume a: "Validate K ma = Returns None \<and> ma ! 0 \<notin> {ScopeTag K, SessionTag K, RecordTag K}"
  then have "length ma = 17 \<or> length ma = 33"
    using Validate_length by blast
  then have ne: "ma \<noteq> []" by auto
  from a have "\<not> isTypeOneOf ma [ScopeKeyPrefix K, SessionKeyPrefix K, RecordKeyPrefix K]"
    by (auto simp: isTypeOneOf_iff key_prefix_defs)
  with ne show "ScopeSessionIteratorPrefix K ma spare = Returns (Inl WrongType)"
    by (simp add: ScopeSessionIteratorPrefix_def)
qed

theorem C5_ScopeSessionIteratorPrefix_witness:
  "Validate example_keys (1 # example_uuid @ replicate 16 9) = Returns None
   \<and> ScopeUUID example_keys (1 # example_uuid @ replicate 16 9) = Returns (Inr example_uuid)
   \<and> ScopeSessionIteratorPrefix example_keys (1 # example_uuid @ replicate 16 9) []
       = Returns (Inr (1 # example_uuid))
   \<and> ScopeSessionIteratorPrefix example_keys (1 # example_uuid @ replicate 16 9) [4, 4]
       = Returns (Inr (1 # example_uuid))
   \<and> Validate example_keys (3 # example_uuid) = Returns None
   \<and> ScopeSessionIteratorPrefix example_keys (3 # example_uuid) [] = Returns (Inl WrongType)"
proof -
  have v1: "Validate example_keys (1 # example_uuid @ replicate 16 9) = Returns None"
    and v2: "Validate example_keys (3 # example_uuid) = Returns None"
    by (simp_all add: Validate_def Verify_cases type_switch_def key_prefix_defs example_keys_def
        example_uuid_def)
  have u: "ScopeUUID example_keys (1 # example_uuid @ replicate 16 9) = Returns (Inr example_uuid)"
    by (simp add: ScopeUUID_returns example_keys_def example_uuid_def)
  show ?thesis
    using v1 v2 u
      C5_ScopeSessionIteratorPrefix [of example_keys "[]" "1 # example_uuid @ replicate 16 9"]
      C5_ScopeSessionIteratorPrefix [of example_keys "[4, 4]" "1 # example_uuid @ replicate 16 9"]
      C5_ScopeSessionIteratorPrefix [of example_keys "[]" "3 # example_uuid"]
    by (simp add: example_keys_def)
qed

text \<open>
  C6, as the claim states it: on every non-empty byte sequence with a tag the function
  recognises and fewer than 17 bytes, the slice of bytes 1 to 17 is out of range and the
  call panics. The slice expression is checked against the capacity. The first two bytes
  of the scope address of the example, taken as \<^verbatim>\<open>full[:2]\<close>, have length 2 and capacity
  17: the call returns, with no error, the session tag and the 16 bytes that follow the
  tag in the backing array.
\<close>

theorem C6_counterexample:
  "length (take 2 (0 # example_uuid)) = 2
   \<and> take 2 (0 # example_uuid) ! 0 = ScopeTag example_keys
   \<and> ScopeSessionIteratorPrefix example_keys (take 2 (0 # example_uuid)) (drop 2 (0 # example_uuid))
       = Returns (Inr (1 # example_uuid))"
  by (simp add: ScopeSessionIteratorPrefix_def isTypeOneOf_iff key_prefix_defs slice_cap_def
      example_keys_def example_uuid_def)

text \<open>
  C6, amended. The three iterator prefix functions look at the tag byte only before they
  slice bytes 1 to 17 of the address. On a non-empty address whose first byte is a tag
  the function recognises, the call panics exactly when the capacity of the slice is
  less than 17, as for the two-byte literal \<open>[ScopeTag, 0]\<close>; when the capacity is at least
  17 it returns the prefix tag and the 16 bytes after the tag byte, those past the length
  read from the backing array. On every other input (empty, or another tag) it returns.
\<close>

theorem C6_iterator_prefix_panics:
  "((ScopeSessionIteratorPrefix K ma spare = Panics) =
      (ma \<noteq> [] \<and> ma ! 0 \<in> {ScopeTag K, SessionTag K, RecordTag K}
         \<and> length ma + length spare < 17))
   \<and> ((ScopeRecordIteratorPrefix K ma spare = Panics) =
      (ma \<noteq> [] \<and> ma ! 0 \<in> {ScopeTag K, SessionTag K, RecordTag K}
         \<and> length ma + length spare < 17))
   \<and> ((ContractSpecRecordSpecIteratorPrefix K ma spare = Panics) =
      (ma \<noteq> [] \<and> ma ! 0 \<in> {ContractSpecificationTag K, RecordSpecificationTag K}
         \<and> length ma + length spare < 17))
   \<and> (ma \<noteq> [] \<and> ma ! 0 \<in> {ScopeTag K, SessionTag K, RecordTag K}
         \<and> 17 \<le> length ma + length spare \<longrightarrow>
       ScopeSessionIteratorPrefix K ma spare
         = Returns (Inr (SessionTag K # take 16 (drop 1 (ma @ spare))))
       \<and> ScopeRecordIteratorPrefix K ma spare
         = Returns (Inr (RecordTag K # take 16 (drop 1 (ma @ spare)))))
   \<and> (ma \<noteq> [] \<and> ma ! 0 \<in> {ContractSpecificationTag K, RecordSpecificationTag K}
         \<and> 17 \<le> length ma + length spare \<longrightarrow>
       ContractSpecRecordSpecIteratorPrefix K ma spare
         = Returns (Inr (RecordSpecificationTag K # take 16 (drop 1 (ma @ spare)))))"
proof -
  have 1: "(ScopeSessionIteratorPrefix K ma spare = Panics) =
      (ma \<noteq> [] \<and> ma ! 0 \<in> {ScopeTag K, SessionTag K, RecordTag K}
         \<and> length ma + length spare < 17)"
    by (auto simp: ScopeSessionIteratorPrefix_def isTypeOneOf_iff key_prefix_defs slice_cap_def)
  have 2: "(ScopeRecordIteratorPrefix K ma spare = Panics) =
      (ma \<noteq> [] \<and> ma ! 0 \<in> {ScopeTag K, SessionTag K, RecordTag K}
         \<and> length ma + length spare < 17)"
    by (auto simp: ScopeRecordIteratorPrefix_def isTypeOneOf_iff key_prefix_defs slice_cap_def)
  have 3: "(ContractSpecRecordSpecIteratorPrefix K ma spare = Panics) =
      (ma \<noteq> [] \<and> ma ! 0 \<in> {ContractSpecificationTag K, RecordSpecificationTag K}
         \<and> length ma + length spare < 17)"
    by (auto simp: ContractSpecRecordSpecIteratorPrefix_def isTypeOneOf_iff key_prefix_defs
        slice_cap_def)
  have 4: "ScopeSessionIteratorPrefix K ma spare
         = Returns (Inr (SessionTag K # take 16 (drop 1 (ma @ spare))))
       \<and> ScopeRecordIteratorPrefix K ma spare
         = Returns (Inr (RecordTag K # take 16 (drop 1 (ma @ spare))))"
    if "ma \<noteq> [] \<and> ma ! 0 \<in> {ScopeTag K, SessionTag K, RecordTag K}
         \<and> 17 \<le> length ma + length spare"
    using that
    by (auto simp: ScopeSessionIteratorPrefix_def ScopeRecordIteratorPrefix_def isTypeOneOf_iff
        key_prefix_defs slice_cap_def)
  have 5: "ContractSpecRecordSpecIteratorPrefix K ma spare
         = Returns (Inr (RecordSpecificationTag K # take 16 (drop 1 (ma @ spare))))"
    if "ma \<noteq> [] \<and> ma ! 0 \<in> {ContractSpecificationTag K, RecordSpecificationTag K}
         \<and> 17 \<le> length ma + length spare"
    using that
    by (auto simp: ContractSpecRecordSpecIteratorPrefix_def isTypeOneOf_iff key_prefix_defs
        slice_cap_def)
  from 1 2 3 4 5 show ?thesis by blast
qed

theorem C6_iterator_prefix_panics_witness:
  "ScopeSessionIteratorPrefix example_keys [ScopeTag example_keys, 0] [] = Panics
   \<and> ScopeRecordIteratorPrefix example_keys [ScopeTag example_keys, 0] [] = Panics
   \<and> ContractSpecRecordSpecIteratorPrefix example_keys [ScopeTag example_keys, 0] [] \<noteq> Panics
   \<and> ContractSpecRecordSpecIteratorPrefix example_keys (5 # replicate 15 0) [] = Panics
   \<and> ScopeRecordIteratorPrefix example_keys [0, 0] (replicate 15 7)
       = Returns (Inr (2 # 0 # replicate 15 7))
   \<and> ContractSpecRecordSpecIteratorPrefix example_keys [3] (replicate 16 7)
       = Returns (Inr (5 # replicate 16 7))"
  using C6_iterator_prefix_panics [of example_keys "[ScopeTag example_keys, 0]" "[]"]
    C6_iterator_prefix_panics [of example_keys "5 # replicate 15 0" "[]"]
    C6_iterator_prefix_panics [of example_keys "[0, 0]" "replicate 15 7"]
    C6_iterator_prefix_panics [of example_keys "[3]" "replicate 16 7"]
  by (simp add: example_keys_def)

text \<open>
  C7. The address of a record is the record tag, the scope UUID and the first 16 bytes of
  the SHA-256 of the name, trimmed and in lower case. So for every scope UUID the names
  \<open>Foo\<close>, \<open> foo \<close> and \<open>FOO\<close> give the same address, byte for byte.
\<close>

theorem C7_name_normalization:
  "(ToLower L (TrimSpace L name) \<noteq> [] \<longrightarrow>
      RecordMetadataAddress K L scopeUUID name =
        Returns (RecordKeyPrefix K @ scopeUUID
                 @ take 16 (Sum256 L (to_bytes (ToLower L (TrimSpace L name))))))
   \<and> RecordMetadataAddress K L scopeUUID ''Foo'' = RecordMetadataAddress K L scopeUUID '' foo ''
   \<and> RecordMetadataAddress K L scopeUUID ''Foo'' = RecordMetadataAddress K L scopeUUID ''FOO''
   \<and> RecordMetadataAddress K L scopeUUID ''Foo'' \<noteq> Panics"
  by (simp add: RecordMetadataAddress_def MarshalBinary_def normalised_Foo Let_def)

theorem C7_name_normalization_witness:
  "RecordMetadataAddress example_keys example_lib example_uuid '' foo ''
     = Returns (2 # example_uuid @ replicate 16 3)
   \<and> RecordMetadataAddress example_keys example_lib example_uuid ''Foo''
     = RecordMetadataAddress example_keys example_lib example_uuid '' foo ''
   \<and> RecordMetadataAddress example_keys example_lib example_uuid ''Foo''
     = RecordMetadataAddress example_keys example_lib example_uuid ''FOO''"
proof -
  note c7 = C7_name_normalization [where name = "'' foo ''" and K = example_keys
      and L = example_lib and scopeUUID = example_uuid]
  have n: "ToLower example_lib (TrimSpace example_lib '' foo '') \<noteq> []"
    by (simp add: normalised_Foo)
  have h: "take 16 (Sum256 example_lib (to_bytes (ToLower example_lib (TrimSpace example_lib '' foo '')))) = replicate 16 3"
    by (simp add: normalised_Foo example_lib_def to_bytes_def)
  have k: "RecordKeyPrefix example_keys = [2]"
    by (simp add: RecordKeyPrefix_def example_keys_def)
  from c7 n have "RecordMetadataAddress example_keys example_lib example_uuid '' foo ''
      = Returns (RecordKeyPrefix example_keys @ example_uuid
          @ take 16 (Sum256 example_lib (to_bytes (ToLower example_lib (TrimSpace example_lib '' foo '')))))"
    by blast
  then have "RecordMetadataAddress example_keys example_lib example_uuid '' foo ''
      = Returns (2 # example_uuid @ replicate 16 3)"
    unfolding h k by simp
  with c7 show ?thesis by blast
qed

text \<open>
  C8. ValidateForScopes returns no error on the empty list. On every list it returns what
  the specification describes: the entries in order, the first failure ending the run,
  and for each entry NilEntry if it is absent, DuplicateAddress if its address was seen
  before, the failure of the scope check if the address, seen for the first time, is not
  a valid Scope address, MissingAccount if its account is empty.
\<close>

theorem C8_ValidateForScopes:
  assumes "distinct_keys K"
  shows "ValidateForScopes K [] = Returns None
     \<and> ValidateForScopes K links = Returns (spec_ValidateForScopes K [] links)
     \<and> ((NotAScopeAddress K a = None) = (length a = 17 \<and> a ! 0 = ScopeTag K))"
proof -
  have "ValidateForScopes_loop K (\<lambda>key. 0) links = Returns (spec_ValidateForScopes K [] links)"
    by (rule ValidateForScopes_loop_spec [OF assms]) simp
  then have "ValidateForScopes K links = Returns (spec_ValidateForScopes K [] links)"
    by (cases links) (simp_all add: ValidateForScopes_def)
  moreover have "ValidateForScopes K [] = Returns None"
    by (simp add: ValidateForScopes_def)
  moreover have "(NotAScopeAddress K a = None) = (length a = 17 \<and> a ! 0 = ScopeTag K)"
    by (auto simp: NotAScopeAddress_def spec_Validate_def known_tag_def required_length_def
        split: option.splits if_splits)
  ultimately show ?thesis by blast
qed

theorem C8_ValidateForScopes_witness:
  "distinct_keys example_keys
   \<and> ValidateForScopes example_keys
        [Some \<lparr>AccAddr = [65], MDAddr = 0 # example_uuid\<rparr>,
         Some \<lparr>AccAddr = [66], MDAddr = 0 # example_uuid\<rparr>]
       = Returns (Some (DuplicateAddress (0 # example_uuid)))
   \<and> ValidateForScopes example_keys
        [Some \<lparr>AccAddr = [65], MDAddr = 2 # example_uuid @ replicate 16 3\<rparr>]
       = Returns (Some (WrongTypeFor PrefixScope))
   \<and> ValidateForScopes example_keys
        [Some \<lparr>AccAddr = [65], MDAddr = 0 # replicate 16 1\<rparr>,
         Some \<lparr>AccAddr = [], MDAddr = 0 # example_uuid\<rparr>, None]
       = Returns (Some (MissingAccount (0 # example_uuid)))
   \<and> ValidateForScopes example_keys
        [Some \<lparr>AccAddr = [65], MDAddr = 0 # replicate 16 1\<rparr>, None]
       = Returns (Some NilEntry)
   \<and> ValidateForScopes example_keys
        [Some \<lparr>AccAddr = [65], MDAddr = 0 # replicate 16 1\<rparr>,
         Some \<lparr>AccAddr = [65], MDAddr = 0 # example_uuid\<rparr>]
       = Returns None"
proof -
  note c8 = C8_ValidateForScopes [OF distinct_example_keys]
  have n: "NotAScopeAddress example_keys (0 # example_uuid) = None"
    "NotAScopeAddress example_keys (0 # replicate 16 1) = None"
    "NotAScopeAddress example_keys (2 # example_uuid @ replicate 16 3) = Some (WrongTypeFor PrefixScope)"
    by (simp_all add: NotAScopeAddress_def spec_Validate_def known_tag_def required_length_def
        example_keys_def example_uuid_def)
  have d: "0 # example_uuid \<noteq> 0 # replicate 16 1"
    by code_simp
  show ?thesis
    using distinct_example_keys n d
      c8 [of "[Some \<lparr>AccAddr = [65], MDAddr = 0 # example_uuid\<rparr>,
               Some \<lparr>AccAddr = [66], MDAddr = 0 # example_uuid\<rparr>]"]
      c8 [of "[Some \<lparr>AccAddr = [65], MDAddr = 2 # example_uuid @ replicate 16 3\<rparr>]"]
      c8 [of "[Some \<lparr>AccAddr = [65], MDAddr = 0 # replicate 16 1\<rparr>,
               Some \<lparr>AccAddr = [], MDAddr = 0 # example_uuid\<rparr>, None]"]
      c8 [of "[Some \<lparr>AccAddr = [65], MDAddr = 0 # replicate 16 1\<rparr>, None]"]
      c8 [of "[Some \<lparr>AccAddr = [65], MDAddr = 0 # replicate 16 1\<rparr>,
               Some \<lparr>AccAddr = [65], MDAddr = 0 # example_uuid\<rparr>]"]
    by simp
qed

text \<open>
  C9. GetDetails is total: it returns on every byte sequence. On an 18-byte sequence with
  the Scope tag (the 17 bytes of a Scope address and one stray byte), which Validate
  rejects, the details it returns record exactly the stray byte as excess: as bytes, in
  hexadecimal and in base64.
\<close>

theorem C9_GetDetails_excess:
  "(\<exists>d. GetDetails K ma = Returns d)
   \<and> (length b = 18 \<and> b ! 0 = ScopeTag K \<longrightarrow>
        Validate K b = Returns (Some (LengthMismatch 17 18))
        \<and> (\<exists>d. GetDetails K b = Returns d \<and> AddressExcess d = [b ! 17]
              \<and> ExcessHex d = hex_EncodeToString [b ! 17]
              \<and> ExcessBase64 d = base64_EncodeToString [b ! 17]))"
proof (intro conjI impI)
  show "\<exists>d. GetDetails K ma = Returns d"
    using returns_withD [OF GetDetails_fields [of K ma]] by blast
next
  assume h: "length b = 18 \<and> b ! 0 = ScopeTag K"
  then have sw: "type_switch K (b ! 0) = Some (PrefixScope, 17, False)"
    by (simp add: type_switch_def ScopeKeyPrefix_def)
  with h show "Validate K b = Returns (Some (LengthMismatch 17 18))"
    by (simp add: Validate_def Verify_cases)
next
  assume h: "length b = 18 \<and> b ! 0 = ScopeTag K"
  then have e: "expected_length K b = 17"
    by (simp add: expected_length_def)
  from h have "drop 17 b = b ! 17 # drop (Suc 17) b"
    by (intro Cons_nth_drop_Suc [symmetric]) simp
  with h have "drop 17 b = [b ! 17]"
    by simp
  with e returns_withD [OF GetDetails_fields [of K b]]
  show "\<exists>d. GetDetails K b = Returns d \<and> AddressExcess d = [b ! 17]
              \<and> ExcessHex d = hex_EncodeToString [b ! 17]
              \<and> ExcessBase64 d = base64_EncodeToString [b ! 17]"
    by auto
qed

theorem C9_GetDetails_excess_witness:
  "Validate example_keys (0 # example_uuid @ [42]) = Returns (Some (LengthMismatch 17 18))
   \<and> map_option AddressExcess (GetDetails example_keys (0 # example_uuid @ [42])) = Returns [42]
   \<and> map_option ExcessHex (GetDetails example_keys (0 # example_uuid @ [42])) = Returns ''2a''
   \<and> map_option ExcessBase64 (GetDetails example_keys (0 # example_uuid @ [42])) = Returns ''Kg==''"
proof -
  have h: "hex_EncodeToString [42] = ''2a''" "base64_EncodeToString [42] = ''Kg==''"
    by (simp_all add: hex_EncodeToString_def hex_digit_def base64_char_def)
  have l: "length (0 # example_uuid @ [42]) = 18 \<and> (0 # example_uuid @ [42]) ! 0 = ScopeTag example_keys"
    "(0 # example_uuid @ [42]) ! 17 = 42"
    by (simp_all add: example_uuid_def example_keys_def)
  show ?thesis
    using C9_GetDetails_excess [of example_keys "[]" "0 # example_uuid @ [42]"] l h
    by auto
qed

text \<open>
  C10, as the claim states it: on a non-empty byte sequence that Validate rejects, the
  prefix string of the details is the tag byte in hexadecimal. The 18-byte sequence with
  the Scope tag is rejected by Validate, and the prefix string of its details is the text
  prefix \<open>scope\<close>, not \<open>00\<close>: GetDetails asks the method Prefix, which drops the error of
  the verification whenever the tag byte gave a prefix.
\<close>

theorem C10_counterexample:
  "Validate example_keys (0 # example_uuid @ [42]) = Returns (Some (LengthMismatch 17 18))
   \<and> map_option PrefixString (GetDetails example_keys (0 # example_uuid @ [42])) = Returns ''scope''
   \<and> hex_EncodeToString [(0 # example_uuid @ [42]) ! 0] = ''00''"
proof -
  have sw: "type_switch example_keys 0 = Some (PrefixScope, 17, False)"
    by (simp add: type_switch_def ScopeKeyPrefix_def example_keys_def)
  then have "prefix_text example_keys (0 # example_uuid @ [42]) = ''scope''"
    by (simp add: prefix_text_def PrefixScope_def)
  with returns_withD [OF GetDetails_fields [of example_keys "0 # example_uuid @ [42]"]]
  have "map_option PrefixString (GetDetails example_keys (0 # example_uuid @ [42])) = Returns ''scope''"
    by auto
  moreover have "Validate example_keys (0 # example_uuid @ [42]) = Returns (Some (LengthMismatch 17 18))"
    using sw by (simp add: Validate_def Verify_cases example_uuid_def)
  moreover have "hex_EncodeToString [(0 # example_uuid @ [42]) ! 0] = ''00''"
    by (simp add: hex_EncodeToString_def hex_digit_def)
  ultimately show ?thesis by blast
qed

text \<open>
  C10, amended. For every non-empty byte sequence GetDetails returns details whose prefix
  string is the tag byte in hexadecimal when the tag byte is none of the six known tags,
  and the text prefix of the tag's type when it is one of them, whatever the length.
\<close>

theorem C10_GetDetails_prefix:
  assumes "distinct_keys K" and "b \<noteq> []"
  shows "(\<exists>d. GetDetails K b = Returns d
            \<and> PrefixString d = (if known_tag K (b ! 0) then tag_prefix K (b ! 0)
                                 else hex_EncodeToString [b ! 0]))
       \<and> (\<not> known_tag K (b ! 0) \<longrightarrow> Validate K b = Returns (Some (UnknownType (b ! 0))))"
proof
  show "\<exists>d. GetDetails K b = Returns d
            \<and> PrefixString d = (if known_tag K (b ! 0) then tag_prefix K (b ! 0)
                                 else hex_EncodeToString [b ! 0])"
    using returns_withD [OF GetDetails_fields [of K b]] prefix_text_distinct [OF assms]
    by auto
next
  show "\<not> known_tag K (b ! 0) \<longrightarrow> Validate K b = Returns (Some (UnknownType (b ! 0)))"
  proof
    assume "\<not> known_tag K (b ! 0)"
    then have "type_switch K (b ! 0) = None"
      using type_switch_known [of K "b ! 0"] by (cases "type_switch K (b ! 0)") auto
    with assms(2) show "Validate K b = Returns (Some (UnknownType (b ! 0)))"
      by (simp add: Validate_def Verify_cases)
  qed
qed

theorem C10_GetDetails_prefix_witness:
  "distinct_keys example_keys
   \<and> Validate example_keys [0x4d, 1] = Returns (Some (UnknownType 0x4d))
   \<and> map_option PrefixString (GetDetails example_keys [0x4d, 1]) = Returns ''4d''
   \<and> map_option PrefixString (GetDetails example_keys [5, 1]) = Returns ''recspec''"
proof -
  have h: "hex_EncodeToString [0x4d] = ''4d''"
    by (simp add: hex_EncodeToString_def hex_digit_def)
  have k: "\<not> known_tag example_keys 0x4d" "known_tag example_keys 5"
    "tag_prefix example_keys 5 = ''recspec''"
    by (simp_all add: known_tag_def tag_prefix_def example_keys_def PrefixRecordSpecification_def)
  show ?thesis
    using distinct_example_keys k h
      C10_GetDetails_prefix [OF distinct_example_keys, of "[0x4d, 1]"]
      C10_GetDetails_prefix [OF distinct_example_keys, of "[5, 1]"]
    by auto
qed

end
